theory Spec2Isabelle
  imports Main
begin

section \<open>The directive lexer of internal/parser (annotations.go)\<close>

text \<open>
  Go strings are byte sequences; they are modelled as \<open>string\<close> (a list of 8-bit
  characters holding the UTF-8 bytes). The library functions of \<open>strings\<close> and
  \<open>regexp\<close> that the parser calls are modelled below on bytes. A Go panic (an index
  out of range) is the error value \<open>IndexOutOfRange\<close>; a nil pointer result is
  \<open>None\<close>.
\<close>

subsection \<open>Errors\<close>

datatype error = IndexOutOfRange

definition bindE :: "error + 'a \<Rightarrow> ('a \<Rightarrow> error + 'b) \<Rightarrow> error + 'b" where
  "bindE r f = (case r of Inl e \<Rightarrow> Inl e | Inr x \<Rightarrow> f x)"

text \<open>\<open>at match i\<close> is the Go expression \<open>match[i]\<close> on a slice: it panics out of range.\<close>

definition at :: "'a list \<Rightarrow> nat \<Rightarrow> error + 'a" where
  "at xs i = (if i < length xs then Inr (xs ! i) else Inl IndexOutOfRange)"

subsection \<open>The functions of package strings\<close>

definition HasPrefix :: "string \<Rightarrow> string \<Rightarrow> bool" where
  "HasPrefix s pre = (take (length pre) s = pre)"

text \<open>\<open>strings.Contains(s, sub)\<close>: \<open>sub\<close> occurs at some offset of \<open>s\<close>.\<close>

fun Contains :: "string \<Rightarrow> string \<Rightarrow> bool" where
  "Contains [] sub = (sub = [])"
| "Contains (x # xs) sub = (HasPrefix (x # xs) sub \<or> Contains xs sub)"

text \<open>\<open>strings.Split(s, "\n")\<close>, for a separator of one byte: never an empty list.\<close>

fun Split :: "string \<Rightarrow> char \<Rightarrow> string list" where
  "Split [] sep = [[]]"
| "Split (x # xs) sep =
     (if x = sep then [] # Split xs sep
      else (case Split xs sep of [] \<Rightarrow> [[x]] | y # ys \<Rightarrow> (x # y) # ys))"

text \<open>
  \<open>unicode.IsSpace\<close> on UTF-8 bytes: the width in bytes of the white space rune that
  starts the string, 0 when none does. The runes are U+0009 to U+000D, U+0020, U+0085,
  U+00A0, U+1680, U+2000 to U+200A, U+2028, U+2029, U+202F, U+205F and U+3000. A lead
  byte of UTF-8 always starts a rune, so the byte patterns are exact.
\<close>

definition spaceWidth :: "string \<Rightarrow> nat" where
  "spaceWidth s =
     (case s of [] \<Rightarrow> 0
      | b0 # r0 \<Rightarrow>
          let n0 = (of_char b0 :: nat) in
          if n0 = 0x20 \<or> (0x09 \<le> n0 \<and> n0 \<le> 0x0D) then 1
          else (case r0 of [] \<Rightarrow> 0
            | b1 # r1 \<Rightarrow>
                let n1 = (of_char b1 :: nat) in
                if n0 = 0xC2 \<and> (n1 = 0x85 \<or> n1 = 0xA0) then 2
                else (case r1 of [] \<Rightarrow> 0
                  | b2 # r2 \<Rightarrow>
                      let n2 = (of_char b2 :: nat) in
                      if n0 = 0xE1 \<and> n1 = 0x9A \<and> n2 = 0x80 then 3
                      else if n0 = 0xE2 \<and> n1 = 0x80 \<and>
                              ((0x80 \<le> n2 \<and> n2 \<le> 0x8A) \<or> n2 = 0xA8 \<or> n2 = 0xA9 \<or> n2 = 0xAF)
                        then 3
                      else if n0 = 0xE2 \<and> n1 = 0x81 \<and> n2 = 0x9F then 3
                      else if n0 = 0xE3 \<and> n1 = 0x80 \<and> n2 = 0x80 then 3
                      else 0)))"

text \<open>The width of the white space rune that ends the string, 0 when none does.\<close>

definition spaceWidthEnd :: "string \<Rightarrow> nat" where
  "spaceWidthEnd s =
     (let n = length s in
      if 1 \<le> n \<and> spaceWidth (drop (n - 1) s) = 1 then 1
      else if 2 \<le> n \<and> spaceWidth (drop (n - 2) s) = 2 then 2
      else if 3 \<le> n \<and> spaceWidth (drop (n - 3) s) = 3 then 3
      else 0)"

lemma spaceWidth_le: "spaceWidth s \<le> length s"
  by (auto simp: spaceWidth_def Let_def split: list.splits)

lemma spaceWidthEnd_le: "spaceWidthEnd s \<le> length s"
  by (auto simp: spaceWidthEnd_def Let_def)

function TrimLeftSpace :: "string \<Rightarrow> string" where
  "TrimLeftSpace s = (if spaceWidth s = 0 then s else TrimLeftSpace (drop (spaceWidth s) s))"
  by pat_completeness auto
termination
proof (relation "measure length")
  show "wf (measure length)" by simp
next
  fix s :: string
  assume "spaceWidth s \<noteq> 0"
  moreover have "spaceWidth s \<le> length s" by (rule spaceWidth_le)
  ultimately show "(drop (spaceWidth s) s, s) \<in> measure length" by auto
qed

function TrimRightSpace :: "string \<Rightarrow> string" where
  "TrimRightSpace s =
     (if spaceWidthEnd s = 0 then s else TrimRightSpace (take (length s - spaceWidthEnd s) s))"
  by pat_completeness auto
termination
proof (relation "measure length")
  show "wf (measure length)" by simp
next
  fix s :: string
  assume "spaceWidthEnd s \<noteq> 0"
  moreover have "spaceWidthEnd s \<le> length s" by (rule spaceWidthEnd_le)
  ultimately show "(take (length s - spaceWidthEnd s) s, s) \<in> measure length" by auto
qed

declare TrimLeftSpace.simps [simp del] TrimRightSpace.simps [simp del]

text \<open>\<open>strings.TrimSpace\<close> is \<open>TrimFunc(s, unicode.IsSpace)\<close>: left, then right.\<close>

definition TrimSpace :: "string \<Rightarrow> string" where
  "TrimSpace s = TrimRightSpace (TrimLeftSpace s)"

text \<open>\<open>strings.Trim(s, cutset)\<close> for a cutset of ASCII bytes.\<close>

definition Trim :: "string \<Rightarrow> string \<Rightarrow> string" where
  "Trim s cutset =
     rev (dropWhile (\<lambda>c. c \<in> set cutset) (rev (dropWhile (\<lambda>c. c \<in> set cutset) s)))"

text \<open>
  \<open>strings.ToUpper\<close> on ASCII text. The parser applies it to the method group of the
  route grammar only, which holds ASCII letters.
\<close>

definition ToUpper :: "string \<Rightarrow> string" where
  "ToUpper s =
     map (\<lambda>c. let n = (of_char c :: nat) in
               if 97 \<le> n \<and> n \<le> 122 then char_of (n - 32) else c) s"

text \<open>
  \<open>strings.Fields\<close>: the maximal runs of bytes between white space runes. \<open>skip\<close>
  counts the bytes of a white space rune still to pass, \<open>cur\<close> is the field being read.
\<close>

fun FieldsFrom :: "nat \<Rightarrow> string \<Rightarrow> string \<Rightarrow> string list" where
  "FieldsFrom skip cur [] = (if cur = [] then [] else [cur])"
| "FieldsFrom skip cur (x # xs) =
     (if 0 < skip then FieldsFrom (skip - 1) cur xs
      else if 0 < spaceWidth (x # xs)
        then (if cur = [] then [] else [cur]) @ FieldsFrom (spaceWidth (x # xs) - 1) [] xs
      else FieldsFrom 0 (cur @ [x]) xs)"

definition Fields :: "string \<Rightarrow> string list" where
  "Fields s = FieldsFrom 0 [] s"

fun Join :: "string list \<Rightarrow> string \<Rightarrow> string" where
  "Join [] sep = []"
| "Join [x] sep = x"
| "Join (x # y # ys) sep = x @ sep @ Join (y # ys) sep"

subsection \<open>Package regexp: syntax\<close>

text \<open>
  The regular expressions the parser compiles use literals, character classes, greedy
  \<open>?\<close>, greedy \<open>*\<close> and \<open>+\<close> on a single character class, alternation,
  capturing and non-capturing groups, and \<open>^\<close>. That fragment is the datatype below.
  The Perl classes are those of RE2: \<open>\s\<close> is \<open>[\t\n\f\r ]\<close>, \<open>\d\<close> is
  \<open>[0-9]\<close>, \<open>\w\<close> is \<open>[0-9A-Za-z_]\<close>. A negated class and \<open>.\<close> accept
  every byte of a rune outside ASCII, so matching on bytes finds the same match and the
  same groups as matching on runes.
\<close>

datatype cset = C char | PerlSpace | PerlDigit | PerlWord

datatype cls = In "cset list" | NotIn "cset list"

datatype regex =
    Bol
  | Str string
  | One cls
  | Seq regex regex
  | Alt regex regex
  | Opt regex
  | Star cls
  | Plus cls
  | Grp nat regex

fun inSet :: "cset \<Rightarrow> char \<Rightarrow> bool" where
  "inSet (C x) c = (c = x)"
| "inSet PerlSpace c =
     (let n = (of_char c :: nat) in n = 0x09 \<or> n = 0x0A \<or> n = 0x0C \<or> n = 0x0D \<or> n = 0x20)"
| "inSet PerlDigit c = (let n = (of_char c :: nat) in 48 \<le> n \<and> n \<le> 57)"
| "inSet PerlWord c =
     (let n = (of_char c :: nat) in
      (48 \<le> n \<and> n \<le> 57) \<or> (65 \<le> n \<and> n \<le> 90) \<or> (97 \<le> n \<and> n \<le> 122) \<or> n = 95)"

fun accepts :: "cls \<Rightarrow> char \<Rightarrow> bool" where
  "accepts (In xs) c = list_ex (\<lambda>x. inSet x c) xs"
| "accepts (NotIn xs) c = (\<not> list_ex (\<lambda>x. inSet x c) xs)"

text \<open>Concatenation and alternation of several expressions, as the pattern text has them.\<close>

fun seqs :: "regex list \<Rightarrow> regex" where
  "seqs [] = Str []"
| "seqs [r] = r"
| "seqs (r # r' # rs) = Seq r (seqs (r' # rs))"

fun alts :: "regex \<Rightarrow> regex list \<Rightarrow> regex" where
  "alts r [] = r"
| "alts r (r' # rs) = Alt r (alts r' rs)"

text \<open>\<open>NumSubexp\<close>: the number of capturing groups.\<close>

fun NumSubexp :: "regex \<Rightarrow> nat" where
  "NumSubexp (Seq a b) = NumSubexp a + NumSubexp b"
| "NumSubexp (Alt a b) = NumSubexp a + NumSubexp b"
| "NumSubexp (Opt a) = NumSubexp a"
| "NumSubexp (Grp i a) = Suc (NumSubexp a)"
| "NumSubexp r = 0"

subsection \<open>Package regexp: matching\<close>

text \<open>
  Go's \<open>regexp\<close> returns the leftmost match and, among those, the one a backtracking
  search finds first. \<open>run t r (s, c)\<close> lists, in the order of that search, the ways
  \<open>r\<close> matches a prefix of \<open>s\<close>: each is the input left and the groups set. \<open>t\<close> is
  the whole text, for \<open>^\<close>. A group holds the text it matched; a group that took no
  part holds the empty string, as in the result of \<open>FindStringSubmatch\<close>.
\<close>

type_synonym mstate = "string \<times> string list"

fun run :: "string \<Rightarrow> regex \<Rightarrow> mstate \<Rightarrow> mstate list" where
  "run t Bol (s, c) = (if length s = length t then [(s, c)] else [])"
| "run t (Str w) (s, c) = (if take (length w) s = w then [(drop (length w) s, c)] else [])"
| "run t (One a) (s, c) =
     (case s of [] \<Rightarrow> [] | x # xs \<Rightarrow> if accepts a x then [(xs, c)] else [])"
| "run t (Seq a b) st = concat (map (run t b) (run t a st))"
| "run t (Alt a b) st = run t a st @ run t b st"
| "run t (Opt a) st = run t a st @ [st]"
| "run t (Star a) (s, c) =
     map (\<lambda>k. (drop k s, c)) (rev [0..<Suc (length (takeWhile (accepts a) s))])"
| "run t (Plus a) (s, c) =
     map (\<lambda>k. (drop k s, c)) (rev [1..<Suc (length (takeWhile (accepts a) s))])"
| "run t (Grp i a) (s, c) =
     map (\<lambda>(s', c'). (s', c'[i := take (length s - length s') s])) (run t a (s, c))"

text \<open>
  The leftmost match of \<open>re\<close> in the suffix \<open>s\<close> of \<open>t\<close>: the input left after it and
  the groups, group 0 the whole match.
\<close>

fun search :: "string \<Rightarrow> regex \<Rightarrow> string \<Rightarrow> mstate option" where
  "search t re [] =
     (case run t (Grp 0 re) ([], replicate (Suc (NumSubexp re)) []) of
        [] \<Rightarrow> None | m # _ \<Rightarrow> Some m)"
| "search t re (x # xs) =
     (case run t (Grp 0 re) (x # xs, replicate (Suc (NumSubexp re)) []) of
        [] \<Rightarrow> search t re xs | m # _ \<Rightarrow> Some m)"

definition FindStringSubmatch :: "regex \<Rightarrow> string \<Rightarrow> string list option" where
  "FindStringSubmatch re s = map_option snd (search s re s)"

lemma run_length_le: "(s', c') \<in> set (run t r (s, c)) \<Longrightarrow> length s' \<le> length s"
proof (induction r arbitrary: s c s' c')
  case (Seq a b)
  from Seq.prems obtain s1 c1 where "(s1, c1) \<in> set (run t a (s, c))"
    and "(s', c') \<in> set (run t b (s1, c1))" by auto
  with Seq.IH show ?case by (meson le_trans)
next
  case (One a)
  then show ?case by (cases s) (auto split: if_splits)
qed (auto split: if_splits)

lemma search_Some_run:
  "search t re s = Some m \<Longrightarrow>
     \<exists>k \<le> length s. m \<in> set (run t (Grp 0 re) (drop k s, replicate (Suc (NumSubexp re)) []))"
proof (induction s)
  case Nil
  then have "m \<in> set (run t (Grp 0 re) ([], replicate (Suc (NumSubexp re)) []))"
    by (cases "run t (Grp 0 re) ([], replicate (Suc (NumSubexp re)) [])") auto
  then show ?case by simp
next
  case (Cons x xs)
  show ?case
  proof (cases "run t (Grp 0 re) (x # xs, replicate (Suc (NumSubexp re)) [])")
    case Nil
    with Cons.prems have "search t re xs = Some m" by simp
    from Cons.IH [OF this] obtain k where "k \<le> length xs"
      and "m \<in> set (run t (Grp 0 re) (drop k xs, replicate (Suc (NumSubexp re)) []))" by blast
    then have "Suc k \<le> length (x # xs)"
      and "m \<in> set (run t (Grp 0 re) (drop (Suc k) (x # xs), replicate (Suc (NumSubexp re)) []))"
      by simp_all
    then show ?thesis by blast
  next
    case (Cons m' ms)
    with Cons.prems have "m \<in> set (run t (Grp 0 re) (drop 0 (x # xs), replicate (Suc (NumSubexp re)) []))"
      by simp
    then show ?thesis by blast
  qed
qed

lemma search_length_le:
  assumes "search t re s = Some (s', c')"
  shows "length s' \<le> length s"
proof -
  from search_Some_run [OF assms] obtain k where
    "(s', c') \<in> set (run t (Grp 0 re) (drop k s, replicate (Suc (NumSubexp re)) []))" by blast
  then have "length s' \<le> length (drop k s)" by (rule run_length_le)
  then show ?thesis by simp
qed

text \<open>
  \<open>FindAllStringSubmatch(s, -1)\<close>: the successive matches, each search starting where
  the match before ended. \<open>afterMatch\<close> says that a match ended at the position of the
  search: an empty match there is not delivered, and after an empty match the search
  moves on by one character.
\<close>

function allMatches :: "string \<Rightarrow> regex \<Rightarrow> string \<Rightarrow> bool \<Rightarrow> string list list" where
  "allMatches t re s afterMatch =
     (case search t re s of
        None \<Rightarrow> []
      | Some (rest, c) \<Rightarrow>
          if length rest = length s
          then (if afterMatch then [] else [c]) @
               (case s of [] \<Rightarrow> [] | x # xs \<Rightarrow> allMatches t re xs False)
          else c # allMatches t re rest True)"
  by pat_completeness auto
termination
proof (relation "measure (\<lambda>(t, re, s, b). length s)")
  show "wf (measure (\<lambda>(t, re, s, b). length s))" by simp
next
  fix t :: string and re :: regex and s :: string and afterMatch :: bool and x21 x22
  assume "s = x21 # x22"
  then show "((t, re, x22, False), (t, re, s, afterMatch)) \<in> measure (\<lambda>(t, re, s, b). length s)"
    by simp
next
  fix t :: string and re :: regex and s :: string and afterMatch :: bool and x2 x1 x2a
  assume "search t re s = Some x2" and "(x1, x2a) = x2" and "length x1 \<noteq> length s"
  moreover from this have "length x1 \<le> length s" by (metis search_length_le)
  ultimately show "((t, re, x1, True), (t, re, s, afterMatch)) \<in> measure (\<lambda>(t, re, s, b). length s)"
    by simp
qed

declare allMatches.simps [simp del]

definition FindAllStringSubmatch :: "regex \<Rightarrow> string \<Rightarrow> string list list" where
  "FindAllStringSubmatch re s = allMatches s re s False"

subsection \<open>Annotations\<close>

datatype AnnotationType =
    AnnotationAPI | AnnotationInfo | AnnotationContact | AnnotationLicense
  | AnnotationServer | AnnotationTag | AnnotationTOS | AnnotationSecurity
  | AnnotationScope | AnnotationExternalDocs | AnnotationLink
  | AnnotationWebhook | AnnotationWebhookBody | AnnotationWebhookResponse
  | AnnotationRoute | AnnotationQuery | AnnotationPath | AnnotationHeader
  | AnnotationBody | AnnotationOK | AnnotationError | AnnotationSecure
  | AnnotationModel | AnnotationField

record Annotation =
  Type :: AnnotationType
  RawLine :: string
  Args :: "string \<rightharpoonup> string"
  Tags :: "string list"

abbreviation argTrue :: string where
  "argTrue \<equiv> ''true''"

subsection \<open>The patterns of NewAnnotationParser\<close>

abbreviation DQ :: char where
  "DQ \<equiv> CHR 0x22"

abbreviation sp :: cls where
  "sp \<equiv> In [PerlSpace]"

abbreviation nsp :: cls where
  "nsp \<equiv> NotIn [PerlSpace]"

abbreviation dg :: cls where
  "dg \<equiv> In [PerlDigit]"

abbreviation wd :: cls where
  "wd \<equiv> In [PerlWord]"

abbreviation notq :: cls where
  "notq \<equiv> NotIn [C DQ]"

text \<open>\<open>(?:\s+"([^"]*)")?\<close> with the group numbered \<open>i\<close>: the optional quoted text
  that ends most grammars.\<close>

abbreviation optQuoted :: "nat \<Rightarrow> regex" where
  "optQuoted i \<equiv> Opt (seqs [Plus sp, Str [DQ], Grp i (Star notq), Str [DQ]])"

record AnnotationParser =
  apiPattern :: regex
  infoPattern :: regex
  contactPattern :: regex
  licensePattern :: regex
  serverPattern :: regex
  tagPattern :: regex
  tosPattern :: regex
  securityPattern :: regex
  scopePattern :: regex
  externalDocsPattern :: regex
  linkPattern :: regex
  webhookPattern :: regex
  webhookBodyPattern :: regex
  webhookRespPattern :: regex
  routePattern :: regex
  paramPattern :: regex
  bodyPattern :: regex
  responsePattern :: regex
  securePattern :: regex
  modelPattern :: regex
  fieldPattern :: regex

definition NewAnnotationParser :: AnnotationParser where
  \<open>NewAnnotationParser = \<lparr>
     \<comment> \<open>\<open>^!api\s+v?([\d.]+)\<close>\<close>
     apiPattern = seqs [Bol, Str ''!api'', Plus sp, Opt (Str ''v''),
       Grp 1 (Plus (In [PerlDigit, C (CHR ''.'')]))],
     \<comment> \<open>\<open>^!info\s+"([^"]+)"\s+v?([\d.]+)(?:\s+"([^"]*)")?\<close>\<close>
     infoPattern = seqs [Bol, Str ''!info'', Plus sp, Str [DQ], Grp 1 (Plus notq), Str [DQ],
       Plus sp, Opt (Str ''v''), Grp 2 (Plus (In [PerlDigit, C (CHR ''.'')])), optQuoted 3],
     \<comment> \<open>\<open>^!contact\s+"([^"]*)"(?:\s+<([^>]+)>)?(?:\s+\(([^)]+)\))?\<close>\<close>
     contactPattern = seqs [Bol, Str ''!contact'', Plus sp, Str [DQ], Grp 1 (Star notq), Str [DQ],
       Opt (seqs [Plus sp, Str ''<'', Grp 2 (Plus (NotIn [C (CHR ''>'')])), Str ''>'']),
       Opt (seqs [Plus sp, Str ''('', Grp 3 (Plus (NotIn [C (CHR '')'')])), Str '')''])],
     \<comment> \<open>\<open>^!license\s+(\S+)(?:\s+(\S+))?\<close>\<close>
     licensePattern = seqs [Bol, Str ''!license'', Plus sp, Grp 1 (Plus nsp),
       Opt (seqs [Plus sp, Grp 2 (Plus nsp)])],
     \<comment> \<open>\<open>^!server\s+(\S+)(?:\s+"([^"]*)")?\<close>\<close>
     serverPattern = seqs [Bol, Str ''!server'', Plus sp, Grp 1 (Plus nsp), optQuoted 2],
     \<comment> \<open>\<open>^!tag\s+(\S+)(?:\s+"([^"]*)")?\<close>\<close>
     tagPattern = seqs [Bol, Str ''!tag'', Plus sp, Grp 1 (Plus nsp), optQuoted 2],
     \<comment> \<open>\<open>^!tos\s+(\S+)\<close>\<close>
     tosPattern = seqs [Bol, Str ''!tos'', Plus sp, Grp 1 (Plus nsp)],
     \<comment> \<open>\<open>^!security\s+(\w+):(apiKey|oauth2|http|openIdConnect):?(\w*)(?:\s+"([^"]*)")?(?:\s+(\S+))?\<close>\<close>
     securityPattern = seqs [Bol, Str ''!security'', Plus sp, Grp 1 (Plus wd), Str '':'',
       Grp 2 (alts (Str ''apiKey'') [Str ''oauth2'', Str ''http'', Str ''openIdConnect'']),
       Opt (Str '':''), Grp 3 (Star wd), optQuoted 4,
       Opt (seqs [Plus sp, Grp 5 (Plus nsp)])],
     \<comment> \<open>\<open>^!scope\s+(\w+)\s+([\w:]+)(?:\s+"([^"]*)")?\<close>\<close>
     scopePattern = seqs [Bol, Str ''!scope'', Plus sp, Grp 1 (Plus wd), Plus sp,
       Grp 2 (Plus (In [PerlWord, C (CHR '':'')])), optQuoted 3],
     \<comment> \<open>\<open>^!externalDocs\s+(\S+)(?:\s+"([^"]*)")?\<close>\<close>
     externalDocsPattern = seqs [Bol, Str ''!externalDocs'', Plus sp, Grp 1 (Plus nsp),
       optQuoted 2],
     \<comment> \<open>\<open>^!link\s+"([^"]+)"\s+(\S+)\<close>\<close>
     linkPattern = seqs [Bol, Str ''!link'', Plus sp, Str [DQ], Grp 1 (Plus notq), Str [DQ],
       Plus sp, Grp 2 (Plus nsp)],
     \<comment> \<open>\<open>^!webhook\s+(\w+):(get|post|put|delete|patch)\s*(?:"([^"]*)")?\<close>\<close>
     webhookPattern = seqs [Bol, Str ''!webhook'', Plus sp, Grp 1 (Plus wd), Str '':'',
       Grp 2 (alts (Str ''get'') [Str ''post'', Str ''put'', Str ''delete'', Str ''patch'']),
       Star sp, Opt (seqs [Str [DQ], Grp 3 (Star notq), Str [DQ]])],
     \<comment> \<open>\<open>^!webhook-body\s+(\S+)(?:\s+"([^"]*)")?\<close>\<close>
     webhookBodyPattern = seqs [Bol, Str ''!webhook-body'', Plus sp, Grp 1 (Plus nsp),
       optQuoted 2],
     \<comment> \<open>\<open>^!webhook-response\s+(\d+)\s+(\S+)(?:\s+"([^"]*)")?\<close>\<close>
     webhookRespPattern = seqs [Bol, Str ''!webhook-response'', Plus sp, Grp 1 (Plus dg),
       Plus sp, Grp 2 (Plus nsp), optQuoted 3],
     \<comment> \<open>\<open>^!(GET|POST|PUT|DELETE|PATCH|OPTIONS|HEAD)\s+(\S+)\s+->\s+(\S+)(?:\s+"([^"]*)")?\<close>\<close>
     routePattern = seqs [Bol, Str ''!'',
       Grp 1 (alts (Str ''GET'') [Str ''POST'', Str ''PUT'', Str ''DELETE'', Str ''PATCH'',
         Str ''OPTIONS'', Str ''HEAD'']),
       Plus sp, Grp 2 (Plus nsp), Plus sp, Str ''->'', Plus sp, Grp 3 (Plus nsp), optQuoted 4],
     \<comment> \<open>\<open>^!(query|path|header|cookie)\s+([\w-]+):(\w+)\??\s*(?:"([^"]*)")?\<close>\<close>
     paramPattern = seqs [Bol, Str ''!'',
       Grp 1 (alts (Str ''query'') [Str ''path'', Str ''header'', Str ''cookie'']),
       Plus sp, Grp 2 (Plus (In [PerlWord, C (CHR ''-'')])), Str '':'', Grp 3 (Plus wd),
       Opt (Str ''?''), Star sp, Opt (seqs [Str [DQ], Grp 4 (Star notq), Str [DQ]])],
     \<comment> \<open>\<open>^!body\s+(\S+)(?:\s+"([^"]*)")?\<close>\<close>
     bodyPattern = seqs [Bol, Str ''!body'', Plus sp, Grp 1 (Plus nsp), optQuoted 2],
     \<comment> \<open>\<open>^!(ok|error)\s+(?:(\d+)\s+)?(\S+)(?:\s+"([^"]*)")?\<close>\<close>
     responsePattern = seqs [Bol, Str ''!'', Grp 1 (alts (Str ''ok'') [Str ''error'']), Plus sp,
       Opt (seqs [Grp 2 (Plus dg), Plus sp]), Grp 3 (Plus nsp), optQuoted 4],
     \<comment> \<open>\<open>^!secure\s+(.+)\<close>\<close>
     securePattern = seqs [Bol, Str ''!secure'', Plus sp, Grp 1 (Plus (NotIn [C (CHR 0x0A)]))],
     \<comment> \<open>\<open>^!model(?:\s+"([^"]*)")?\<close>\<close>
     modelPattern = seqs [Bol, Str ''!model'', optQuoted 1],
     \<comment> \<open>\<open>^!field\s+(\w+):(\w+)\??\s*(?:"([^"]*)")?\<close>\<close>
     fieldPattern = seqs [Bol, Str ''!field'', Plus sp, Grp 1 (Plus wd), Str '':'',
       Grp 2 (Plus wd), Opt (Str ''?''), Star sp,
       Opt (seqs [Str [DQ], Grp 3 (Star notq), Str [DQ]])]
   \<rparr>\<close>

text \<open>The three patterns compiled inside the parse functions.\<close>

definition defaultPattern :: regex where
  \<comment> \<open>\<open>default=(\S+)\<close>\<close>
  "defaultPattern = seqs [Str ''default='', Grp 1 (Plus nsp)]"

definition examplePattern :: regex where
  \<comment> \<open>\<open>example=("[^"]*"|\S+)\<close>\<close>
  \<open>examplePattern =
     seqs [Str ''example='', Grp 1 (alts (seqs [Str [DQ], Star notq, Str [DQ]]) [Plus nsp])]\<close>

definition hashtagPattern :: regex where
  \<comment> \<open>\<open>#(\w+)\<close>, the local \<open>tagPattern\<close> of \<open>extractTags\<close>\<close>
  "hashtagPattern = seqs [Str ''#'', Grp 1 (Plus wd)]"

subsection \<open>The parse functions\<close>

text \<open>
  Each parse function returns \<open>Inr None\<close> for Go's nil (the line does not match),
  \<open>Inr (Some a)\<close> for an annotation, and \<open>Inl e\<close> where the Go code would panic.
\<close>

type_synonym parsed = "error + Annotation option"

text \<open>The loop over the keys of a matcher: \<open>if i+1 < len(match) { args[key] = match[i+1] }\<close>.\<close>

fun fillArgs :: "string list \<Rightarrow> string list \<Rightarrow> nat \<Rightarrow> (string \<rightharpoonup> string) \<Rightarrow> (string \<rightharpoonup> string)" where
  "fillArgs match [] i args = args"
| "fillArgs match (key # keys) i args =
     fillArgs match keys (Suc i) (if i + 1 < length match then args(key \<mapsto> match ! (i + 1)) else args)"

definition matchers :: "AnnotationParser \<Rightarrow> (regex \<times> AnnotationType \<times> string list) list" where
  "matchers p =
     [(apiPattern p, AnnotationAPI, [''version'']),
      (infoPattern p, AnnotationInfo, [''title'', ''version'', ''description'']),
      (contactPattern p, AnnotationContact, [''name'', ''email'', ''url'']),
      (licensePattern p, AnnotationLicense, [''name'', ''url'']),
      (serverPattern p, AnnotationServer, [''url'', ''description'']),
      (tagPattern p, AnnotationTag, [''name'', ''description'']),
      (tosPattern p, AnnotationTOS, [''url'']),
      (securityPattern p, AnnotationSecurity,
         [''name'', ''type'', ''location'', ''description'', ''url'']),
      (scopePattern p, AnnotationScope, [''security'', ''name'', ''description'']),
      (externalDocsPattern p, AnnotationExternalDocs, [''url'', ''description'']),
      (linkPattern p, AnnotationLink, [''label'', ''url''])]"

fun tryMatchers :: "(regex \<times> AnnotationType \<times> string list) list \<Rightarrow> string \<Rightarrow> Annotation option" where
  "tryMatchers [] line = None"
| "tryMatchers ((pattern, aType, keys) # ms) line =
     (case FindStringSubmatch pattern line of
        Some match \<Rightarrow>
          Some \<lparr>Type = aType, RawLine = line, Args = fillArgs match keys 0 Map.empty, Tags = []\<rparr>
      | None \<Rightarrow> tryMatchers ms line)"

definition parseSimplePatterns :: "AnnotationParser \<Rightarrow> string \<Rightarrow> parsed" where
  "parseSimplePatterns p line = Inr (tryMatchers (matchers p) line)"

text \<open>The loop of \<open>extractTags\<close>: \<open>tags = append(tags, match[1])\<close> for each match.\<close>

fun collectTags :: "string list list \<Rightarrow> string list \<Rightarrow> error + string list" where
  "collectTags [] tags = Inr tags"
| "collectTags (match # matches) tags =
     bindE (at match 1) (\<lambda>m1. collectTags matches (tags @ [m1]))"

definition extractTags :: "string \<Rightarrow> error + string list" where
  "extractTags line = collectTags (FindAllStringSubmatch hashtagPattern line) []"

definition parseRoutePattern :: "AnnotationParser \<Rightarrow> string \<Rightarrow> parsed" where
  "parseRoutePattern p line =
     (case FindStringSubmatch (routePattern p) line of
        None \<Rightarrow> Inr None
      | Some match \<Rightarrow>
          bindE (at match 1) (\<lambda>m1. bindE (at match 2) (\<lambda>m2.
          bindE (at match 3) (\<lambda>m3. bindE (at match 4) (\<lambda>m4.
          bindE (extractTags line) (\<lambda>tags.
            Inr (Some \<lparr>Type = AnnotationRoute, RawLine = line,
                       Args = [''method'' \<mapsto> ToUpper m1, ''path'' \<mapsto> m2,
                               ''operationId'' \<mapsto> m3, ''summary'' \<mapsto> m4],
                       Tags = tags\<rparr>)))))))"

definition parseParamPattern :: "AnnotationParser \<Rightarrow> string \<Rightarrow> parsed" where
  "parseParamPattern p line =
     (case FindStringSubmatch (paramPattern p) line of
        None \<Rightarrow> Inr None
      | Some match \<Rightarrow>
          bindE (at match 1) (\<lambda>m1. bindE (at match 2) (\<lambda>m2.
          bindE (at match 3) (\<lambda>m3. bindE (at match 4) (\<lambda>m4.
            let args = [''in'' \<mapsto> m1, ''name'' \<mapsto> m2, ''type'' \<mapsto> m3, ''description'' \<mapsto> m4];
                args = (if Contains line '' required'' then args(''required'' \<mapsto> argTrue) else args)
            in bindE (case FindStringSubmatch defaultPattern line of
                        None \<Rightarrow> Inr args
                      | Some defMatch \<Rightarrow>
                          bindE (at defMatch 1) (\<lambda>d1.
                            Inr (args(''default'' \<mapsto> Trim d1 [DQ, CHR 0x27]))))
                 (\<lambda>args.
                    let aType = (if m1 = ''path'' then AnnotationPath
                                 else if m1 = ''header'' then AnnotationHeader
                                 else AnnotationQuery)
                    in Inr (Some \<lparr>Type = aType, RawLine = line, Args = args, Tags = []\<rparr>)))))))"

definition parseBodyPattern :: "AnnotationParser \<Rightarrow> string \<Rightarrow> parsed" where
  "parseBodyPattern p line =
     (case FindStringSubmatch (bodyPattern p) line of
        None \<Rightarrow> Inr None
      | Some match \<Rightarrow>
          bindE (at match 1) (\<lambda>m1. bindE (at match 2) (\<lambda>m2.
            let args = [''schema'' \<mapsto> m1, ''description'' \<mapsto> m2];
                args = (if Contains line '' required'' then args(''required'' \<mapsto> argTrue) else args)
            in Inr (Some \<lparr>Type = AnnotationBody, RawLine = line, Args = args, Tags = []\<rparr>))))"

definition parseResponsePattern :: "AnnotationParser \<Rightarrow> string \<Rightarrow> parsed" where
  "parseResponsePattern p line =
     (case FindStringSubmatch (responsePattern p) line of
        None \<Rightarrow> Inr None
      | Some match \<Rightarrow>
          bindE (at match 2) (\<lambda>statusCode. bindE (at match 3) (\<lambda>schema.
          bindE (at match 1) (\<lambda>m1.
            let statusCode = (if m1 = ''ok'' \<and> statusCode = [] then ''200'' else statusCode);
                statusCode = (if m1 = ''error'' \<and> statusCode = [] then ''500'' else statusCode);
                aType = (if m1 = ''error'' then AnnotationError else AnnotationOK)
            in bindE (at match 4) (\<lambda>m4.
                 Inr (Some \<lparr>Type = aType, RawLine = line,
                            Args = [''status'' \<mapsto> statusCode, ''schema'' \<mapsto> schema,
                                    ''description'' \<mapsto> m4],
                            Tags = []\<rparr>))))))"

definition parseSecurePattern :: "AnnotationParser \<Rightarrow> string \<Rightarrow> parsed" where
  "parseSecurePattern p line =
     (case FindStringSubmatch (securePattern p) line of
        None \<Rightarrow> Inr None
      | Some match \<Rightarrow>
          bindE (at match 1) (\<lambda>m1.
            let names = Fields m1
            in Inr (Some \<lparr>Type = AnnotationSecure, RawLine = line,
                          Args = [''names'' \<mapsto> Join names '',''], Tags = names\<rparr>)))"

definition parseWebhookPattern :: "AnnotationParser \<Rightarrow> string \<Rightarrow> parsed" where
  "parseWebhookPattern p line =
     (case FindStringSubmatch (webhookPattern p) line of
        Some match \<Rightarrow>
          bindE (at match 1) (\<lambda>m1. bindE (at match 2) (\<lambda>m2. bindE (at match 3) (\<lambda>m3.
            Inr (Some \<lparr>Type = AnnotationWebhook, RawLine = line,
                       Args = [''name'' \<mapsto> m1, ''method'' \<mapsto> m2, ''description'' \<mapsto> m3],
                       Tags = []\<rparr>))))
      | None \<Rightarrow>
     (case FindStringSubmatch (webhookBodyPattern p) line of
        Some match \<Rightarrow>
          bindE (at match 1) (\<lambda>m1. bindE (at match 2) (\<lambda>m2.
            Inr (Some \<lparr>Type = AnnotationWebhookBody, RawLine = line,
                       Args = [''schema'' \<mapsto> m1, ''description'' \<mapsto> m2], Tags = []\<rparr>)))
      | None \<Rightarrow>
     (case FindStringSubmatch (webhookRespPattern p) line of
        Some match \<Rightarrow>
          bindE (at match 1) (\<lambda>m1. bindE (at match 2) (\<lambda>m2. bindE (at match 3) (\<lambda>m3.
            Inr (Some \<lparr>Type = AnnotationWebhookResponse, RawLine = line,
                       Args = [''status'' \<mapsto> m1, ''schema'' \<mapsto> m2, ''description'' \<mapsto> m3],
                       Tags = []\<rparr>))))
      | None \<Rightarrow> Inr None)))"

definition parseModelPattern :: "AnnotationParser \<Rightarrow> string \<Rightarrow> parsed" where
  "parseModelPattern p line =
     (case FindStringSubmatch (modelPattern p) line of
        None \<Rightarrow> Inr None
      | Some match \<Rightarrow>
          bindE (at match 1) (\<lambda>m1.
            Inr (Some \<lparr>Type = AnnotationModel, RawLine = line,
                       Args = [''description'' \<mapsto> m1], Tags = []\<rparr>)))"

definition parseFieldPattern :: "AnnotationParser \<Rightarrow> string \<Rightarrow> parsed" where
  "parseFieldPattern p line =
     (case FindStringSubmatch (fieldPattern p) line of
        None \<Rightarrow> Inr None
      | Some match \<Rightarrow>
          bindE (at match 1) (\<lambda>m1. bindE (at match 2) (\<lambda>m2. bindE (at match 3) (\<lambda>m3.
            let args = [''name'' \<mapsto> m1, ''type'' \<mapsto> m2, ''description'' \<mapsto> m3];
                args = (if Contains line '' required'' then args(''required'' \<mapsto> argTrue) else args)
            in bindE (case FindStringSubmatch examplePattern line of
                        None \<Rightarrow> Inr args
                      | Some exMatch \<Rightarrow>
                          bindE (at exMatch 1) (\<lambda>e1.
                            Inr (args(''example'' \<mapsto> Trim e1 [DQ, CHR 0x27]))))
                 (\<lambda>args.
                    Inr (Some \<lparr>Type = AnnotationField, RawLine = line, Args = args, Tags = []\<rparr>))))))"

text \<open>\<open>if a := f(line); a != nil { return a }\<close>, then the rest.\<close>

definition orElse :: "parsed \<Rightarrow> parsed \<Rightarrow> parsed" where
  "orElse r k = (case r of Inl e \<Rightarrow> Inl e | Inr (Some a) \<Rightarrow> Inr (Some a) | Inr None \<Rightarrow> k)"

definition parseLine :: "AnnotationParser \<Rightarrow> string \<Rightarrow> parsed" where
  "parseLine p line =
     orElse (parseSimplePatterns p line)
    (orElse (parseRoutePattern p line)
    (orElse (parseParamPattern p line)
    (orElse (parseBodyPattern p line)
    (orElse (parseResponsePattern p line)
    (orElse (parseSecurePattern p line)
    (orElse (parseWebhookPattern p line)
    (orElse (parseModelPattern p line)
            (parseFieldPattern p line))))))))"

text \<open>The loop of \<open>Parse\<close> over the lines, \<open>annotations\<close> the slice built so far.\<close>

fun ParseLines :: "AnnotationParser \<Rightarrow> string list \<Rightarrow> Annotation list \<Rightarrow> error + Annotation list" where
  "ParseLines p [] annotations = Inr annotations"
| "ParseLines p (l # lines) annotations =
     (let line = TrimSpace l in
      if \<not> HasPrefix line ''!'' then ParseLines p lines annotations
      else (case parseLine p line of
              Inl e \<Rightarrow> Inl e
            | Inr None \<Rightarrow> ParseLines p lines annotations
            | Inr (Some a) \<Rightarrow> ParseLines p lines (annotations @ [a])))"

definition Parse :: "AnnotationParser \<Rightarrow> string \<Rightarrow> error + Annotation list" where
  "Parse p text = ParseLines p (Split text (CHR 0x0A)) []"

subsection \<open>The accessors of parsed data\<close>

text \<open>A Go map read \<open>a.Args[k]\<close>: the empty string for a missing key.\<close>

definition lookup :: "(string \<rightharpoonup> string) \<Rightarrow> string \<Rightarrow> string" where
  "lookup m k = (case m k of None \<Rightarrow> [] | Some v \<Rightarrow> v)"

record ParsedParam =
  In_ :: string
  Name :: string
  Type_ :: string
  Description :: string
  Required :: bool
  Default :: string

definition GetParam :: "Annotation \<Rightarrow> ParsedParam" where
  "GetParam a = \<lparr>In_ = lookup (Args a) ''in'', Name = lookup (Args a) ''name'',
     Type_ = lookup (Args a) ''type'', Description = lookup (Args a) ''description'',
     Required = (lookup (Args a) ''required'' = argTrue),
     Default = lookup (Args a) ''default''\<rparr>"

record ParsedBody =
  BodySchema :: string
  BodyDescription :: string
  BodyRequired :: bool

definition GetBody :: "Annotation \<Rightarrow> ParsedBody" where
  "GetBody a = \<lparr>BodySchema = lookup (Args a) ''schema'',
     BodyDescription = lookup (Args a) ''description'',
     BodyRequired = (lookup (Args a) ''required'' = argTrue)\<rparr>"

record ParsedField =
  FieldName :: string
  FieldType :: string
  FieldDescription :: string
  FieldRequired :: bool
  FieldExample :: string

definition GetField :: "Annotation \<Rightarrow> ParsedField" where
  "GetField a = \<lparr>FieldName = lookup (Args a) ''name'', FieldType = lookup (Args a) ''type'',
     FieldDescription = lookup (Args a) ''description'',
     FieldRequired = (lookup (Args a) ''required'' = argTrue),
     FieldExample = lookup (Args a) ''example''\<rparr>"

section \<open>Properties of the matcher\<close>

lemma run_caps_length: "(s', c') \<in> set (run t r (s, c)) \<Longrightarrow> length c' = length c"
proof (induction r arbitrary: s c s' c')
  case (Seq a b)
  from Seq.prems obtain s1 c1 where "(s1, c1) \<in> set (run t a (s, c))"
    and "(s', c') \<in> set (run t b (s1, c1))" by auto
  with Seq.IH show ?case by metis
next
  case (One a)
  then show ?case by (cases s) (auto split: if_splits)
next
  case (Grp i a)
  then show ?case by fastforce
qed (auto split: if_splits)

lemma search_caps_length:
  assumes "search t re s = Some (s', c')"
  shows "length c' = Suc (NumSubexp re)"
proof -
  from search_Some_run [OF assms] obtain k where
    "(s', c') \<in> set (run t (Grp 0 re) (drop k s, replicate (Suc (NumSubexp re)) []))" by blast
  then have "length c' = length (replicate (Suc (NumSubexp re)) ([]::string))"
    by (rule run_caps_length)
  then show ?thesis by simp
qed

lemma FindStringSubmatch_length:
  "FindStringSubmatch re s = Some m \<Longrightarrow> length m = Suc (NumSubexp re)"
  by (auto simp: FindStringSubmatch_def dest: search_caps_length)

lemma allMatches_length:
  "m \<in> set (allMatches t re s b) \<Longrightarrow> length m = Suc (NumSubexp re)"
proof (induction t re s b rule: allMatches.induct)
  case (1 t re s afterMatch)
  show ?case
  proof (cases "search t re s")
    case None
    with "1.prems" show ?thesis by (simp add: allMatches.simps)
  next
    case (Some st)
    obtain rest c where st: "st = (rest, c)" by (cases st)
    have len: "length c = Suc (NumSubexp re)" using Some st by (auto dest: search_caps_length)
    show ?thesis
    proof (cases "length rest = length s")
      case True
      with "1.prems" Some st have "m = c \<or> (\<exists>x xs. s = x # xs \<and> m \<in> set (allMatches t re xs False))"
        by (subst (asm) allMatches.simps) (auto split: if_splits list.splits)
      then show ?thesis
      proof
        assume "m = c" with len show ?thesis by simp
      next
        assume "\<exists>x xs. s = x # xs \<and> m \<in> set (allMatches t re xs False)"
        then obtain x xs where "s = x # xs" "m \<in> set (allMatches t re xs False)" by blast
        with "1.IH"(1) [OF Some st [symmetric] True] show ?thesis by blast
      qed
    next
      case False
      with "1.prems" Some st have "m = c \<or> m \<in> set (allMatches t re rest True)"
        by (subst (asm) allMatches.simps) auto
      with len "1.IH"(2) [OF Some st [symmetric] False] show ?thesis by blast
    qed
  qed
qed

lemma search_Bol_None: "length s < length t \<Longrightarrow> search t (Seq Bol r) s = None"
  by (induction s) auto

lemma FindStringSubmatch_anchored:
  "FindStringSubmatch (Seq Bol r) s =
     (case run s r (s, replicate (Suc (NumSubexp r)) []) of
        [] \<Rightarrow> None
      | (s', c) # _ \<Rightarrow> Some (c[0 := take (length s - length s') s]))"
  by (cases s) (auto simp: FindStringSubmatch_def search_Bol_None split: list.splits)


text \<open>The groups an expression sets; a match leaves every other group as it was.\<close>

fun grps :: "regex \<Rightarrow> nat set" where
  "grps (Seq a b) = grps a \<union> grps b"
| "grps (Alt a b) = grps a \<union> grps b"
| "grps (Opt a) = grps a"
| "grps (Grp i a) = insert i (grps a)"
| "grps r = {}"

lemma run_frame:
  "(s', c') \<in> set (run t r (s, c)) \<Longrightarrow> i \<notin> grps r \<Longrightarrow> c' ! i = c ! i"
proof (induction r arbitrary: s c s' c')
  case (Seq a b)
  from Seq.prems obtain s1 c1 where "(s1, c1) \<in> set (run t a (s, c))"
    and "(s', c') \<in> set (run t b (s1, c1))" by auto
  with Seq.IH Seq.prems(2) show ?case by (metis UnCI grps.simps(1))
next
  case (One a)
  then show ?case by (cases s) (auto split: if_splits)
next
  case (Grp j a)
  then show ?case by fastforce
qed (auto split: if_splits)

lemma run_Seq_Str [simp]:
  "run t (Seq (Str w) r) (s, c) =
     (if take (length w) s = w then run t r (drop (length w) s, c) else [])"
  by simp

lemma run_Seq_Bol [simp]:
  "run t (Seq Bol r) (s, c) = (if length s = length t then run t r (s, c) else [])"
  by simp

lemma mem_run_Seq:
  "x \<in> set (run t (Seq a b) st) \<longleftrightarrow> (\<exists>y \<in> set (run t a st). x \<in> set (run t b y))"
  by auto

lemma at_Inr [simp]: "i < length xs \<Longrightarrow> at xs i = Inr (xs ! i)"
  by (simp add: at_def)

lemma bindE_Inr [simp]: "bindE (Inr x) f = f x"
  by (simp add: bindE_def)

lemma bindE_Inl [simp]: "bindE (Inl e) f = Inl e"
  by (simp add: bindE_def)

lemma NumSubexp_patterns:
  "NumSubexp (routePattern NewAnnotationParser) = 4"
  "NumSubexp (paramPattern NewAnnotationParser) = 4"
  "NumSubexp (bodyPattern NewAnnotationParser) = 2"
  "NumSubexp (responsePattern NewAnnotationParser) = 4"
  "NumSubexp (securePattern NewAnnotationParser) = 1"
  "NumSubexp (webhookPattern NewAnnotationParser) = 3"
  "NumSubexp (webhookBodyPattern NewAnnotationParser) = 2"
  "NumSubexp (webhookRespPattern NewAnnotationParser) = 3"
  "NumSubexp (modelPattern NewAnnotationParser) = 1"
  "NumSubexp (fieldPattern NewAnnotationParser) = 3"
  "NumSubexp defaultPattern = 1"
  "NumSubexp examplePattern = 1"
  "NumSubexp hashtagPattern = 1"
  by (simp_all add: NewAnnotationParser_def defaultPattern_def examplePattern_def hashtagPattern_def)


section \<open>Properties of the parse functions\<close>

lemma parseLine_cases:
  assumes "parseLine p line = Inr (Some a)"
  shows "parseSimplePatterns p line = Inr (Some a) \<or> parseRoutePattern p line = Inr (Some a) \<or>
         parseParamPattern p line = Inr (Some a) \<or> parseBodyPattern p line = Inr (Some a) \<or>
         parseResponsePattern p line = Inr (Some a) \<or> parseSecurePattern p line = Inr (Some a) \<or>
         parseWebhookPattern p line = Inr (Some a) \<or> parseModelPattern p line = Inr (Some a) \<or>
         parseFieldPattern p line = Inr (Some a)"
  using assms unfolding parseLine_def orElse_def
  by (auto split: sum.splits option.splits)

lemma parseParamPattern_Some:
  assumes "FindStringSubmatch (paramPattern NewAnnotationParser) line = Some m"
  shows "\<exists>args. parseParamPattern NewAnnotationParser line =
           Inr (Some \<lparr>Type = (if m ! 1 = ''path'' then AnnotationPath
                               else if m ! 1 = ''header'' then AnnotationHeader
                               else AnnotationQuery),
                       RawLine = line, Args = args, Tags = []\<rparr>) \<and>
         args ''in'' = Some (m ! 1) \<and> args ''name'' = Some (m ! 2) \<and>
         args ''type'' = Some (m ! 3) \<and> args ''description'' = Some (m ! 4) \<and>
         args ''required'' = (if Contains line '' required'' then Some argTrue else None) \<and>
         args ''default'' =
           (case FindStringSubmatch defaultPattern line of
              None \<Rightarrow> None | Some d \<Rightarrow> Some (Trim (d ! 1) [DQ, CHR 0x27]))"
proof -
  have len: "length m = 5"
    using FindStringSubmatch_length [OF assms] by (simp add: NumSubexp_patterns)
  show ?thesis
  proof (cases "FindStringSubmatch defaultPattern line")
    case None
    with assms len show ?thesis by (simp add: parseParamPattern_def Let_def)
  next
    case (Some d)
    then have "length d = 2"
      using FindStringSubmatch_length [OF Some] by (simp add: NumSubexp_patterns)
    with Some assms len show ?thesis by (simp add: parseParamPattern_def Let_def)
  qed
qed


subsection \<open>The cookie location\<close>

lemma simple_cookie: "tryMatchers (matchers NewAnnotationParser) (''!cookie'' @ rest) = None"
  by (simp add: matchers_def NewAnnotationParser_def FindStringSubmatch_anchored)

lemma route_cookie: "FindStringSubmatch (routePattern NewAnnotationParser) (''!cookie'' @ rest) = None"
  by (simp add: NewAnnotationParser_def FindStringSubmatch_anchored)

lemma run_Grp_alt_cookie:
  "run t (Seq (Grp 1 (alts (Str ''query'') [Str ''path'', Str ''header'', Str ''cookie''])) R)
       (''cookie'' @ rest, c) = run t R (rest, c[1 := ''cookie''])"
  by simp

lemma param_cookie_group:
  assumes "FindStringSubmatch (paramPattern NewAnnotationParser) (''!cookie'' @ rest) = Some m"
  shows "m ! 1 = ''cookie''"
proof -
  define R where "R = seqs [Plus sp, Grp 2 (Plus (In [PerlWord, C (CHR ''-'')])), Str '':'', Grp 3 (Plus wd),
       Opt (Str ''?''), Star sp, Opt (seqs [Str [DQ], Grp 4 (Star notq), Str [DQ]])]"
  define c0 where "c0 = (replicate 5 [] :: string list)[1 := ''cookie'']"
  have pat: "paramPattern NewAnnotationParser =
      Seq Bol (Seq (Str ''!'') (Seq (Grp 1 (alts (Str ''query'') [Str ''path'', Str ''header'', Str ''cookie''])) R))"
    by (simp add: NewAnnotationParser_def R_def)
  have n: "NumSubexp R = 3" by (simp add: R_def)
  have g: "1 \<notin> grps R" by (simp add: R_def)
  have "run (''!cookie'' @ rest) (Seq (Str ''!'') (Seq (Grp 1 (alts (Str ''query'') [Str ''path'', Str ''header'', Str ''cookie''])) R))
          (''!cookie'' @ rest, replicate 5 []) = run (''!cookie'' @ rest) R (rest, c0)"
    unfolding c0_def by simp
  with assms obtain s' c where mem: "(s', c) \<in> set (run (''!cookie'' @ rest) R (rest, c0))"
    and m: "m = c[0 := take (length (''!cookie'' @ rest) - length s') (''!cookie'' @ rest)]"
    unfolding pat FindStringSubmatch_anchored
    by (cases "run (''!cookie'' @ rest) R (rest, c0)") (auto simp: n)
  from run_frame [OF mem g] have "c ! 1 = ''cookie''" by (simp add: c0_def)
  with m show ?thesis by simp
qed

text \<open>
  Claim C10. The parameter grammar accepts the location \<open>cookie\<close> beside \<open>query\<close>,
  \<open>path\<close> and \<open>header\<close>. For every line that starts with \<open>!cookie\<close> and matches
  the parameter pattern, \<open>parseLine\<close> returns an annotation whose \<open>in\<close> attribute is
  \<open>cookie\<close> and whose type is \<open>AnnotationQuery\<close>: only \<open>path\<close> and \<open>header\<close>
  change the type from its default.
\<close>

theorem cookie_param_is_query_kind:
  assumes "FindStringSubmatch (paramPattern NewAnnotationParser) (''!cookie'' @ rest) = Some m"
  shows "\<exists>a. parseLine NewAnnotationParser (''!cookie'' @ rest) = Inr (Some a) \<and>
             Type a = AnnotationQuery \<and> Args a ''in'' = Some ''cookie'' \<and>
             Args a ''name'' = Some (m ! 2) \<and> Args a ''type'' = Some (m ! 3) \<and>
             RawLine a = ''!cookie'' @ rest"
proof -
  have g: "m ! 1 = ''cookie''" using assms by (rule param_cookie_group)
  from parseParamPattern_Some [OF assms] g obtain args where
    pp: "parseParamPattern NewAnnotationParser (''!cookie'' @ rest) =
           Inr (Some \<lparr>Type = AnnotationQuery, RawLine = ''!cookie'' @ rest, Args = args, Tags = []\<rparr>)"
    and a: "args ''in'' = Some ''cookie''" "args ''name'' = Some (m ! 2)" "args ''type'' = Some (m ! 3)"
    by auto
  have s1: "parseSimplePatterns NewAnnotationParser (''!cookie'' @ rest) = Inr None"
    by (simp only: parseSimplePatterns_def simple_cookie)
  have s2: "parseRoutePattern NewAnnotationParser (''!cookie'' @ rest) = Inr None"
    by (simp only: parseRoutePattern_def route_cookie option.case)
  have "parseLine NewAnnotationParser (''!cookie'' @ rest) =
          parseParamPattern NewAnnotationParser (''!cookie'' @ rest)"
    by (simp only: parseLine_def orElse_def s1 s2 pp sum.case option.case)
  with pp have "parseLine NewAnnotationParser (''!cookie'' @ rest) =
      Inr (Some \<lparr>Type = AnnotationQuery, RawLine = ''!cookie'' @ rest, Args = args, Tags = []\<rparr>)"
    by (simp only:)
  moreover have "Type \<lparr>Type = AnnotationQuery, RawLine = ''!cookie'' @ rest, Args = args, Tags = []\<rparr> = AnnotationQuery"
    "Args \<lparr>Type = AnnotationQuery, RawLine = ''!cookie'' @ rest, Args = args, Tags = []\<rparr> = args"
    "RawLine \<lparr>Type = AnnotationQuery, RawLine = ''!cookie'' @ rest, Args = args, Tags = []\<rparr> = ''!cookie'' @ rest"
    by (simp_all only: Annotation.simps)
  ultimately show ?thesis using a by (intro exI conjI) (assumption, simp_all only:)
qed

lemma cookie_line_matches: \<open>FindStringSubmatch (paramPattern NewAnnotationParser) (''!cookie'' @ '' sid:string "session"'') = Some [''!cookie sid:string "session"'', ''cookie'', ''sid'', ''string'', ''session'']\<close>
  by code_simp

theorem cookie_param_is_query_kind_witness:
  \<open>\<exists>a. parseLine NewAnnotationParser ''!cookie sid:string "session"'' = Inr (Some a) \<and>
       Type a = AnnotationQuery \<and> Args a ''in'' = Some ''cookie'' \<and>
       Args a ''name'' = Some ''sid'' \<and> Args a ''type'' = Some ''string''\<close>
proof -
  from cookie_param_is_query_kind [OF cookie_line_matches] obtain a where
    *: \<open>parseLine NewAnnotationParser (''!cookie'' @ '' sid:string "session"'') = Inr (Some a) \<and>
    Type a = AnnotationQuery \<and> Args a ''in'' = Some ''cookie'' \<and>
    Args a ''name'' = Some ([''!cookie sid:string "session"'', ''cookie'', ''sid'', ''string'', ''session''] ! 2) \<and>
    Args a ''type'' = Some ([''!cookie sid:string "session"'', ''cookie'', ''sid'', ''string'', ''session''] ! 3) \<and>
    RawLine a = ''!cookie'' @ '' sid:string "session"''\<close> ..
  from * have 1: \<open>parseLine NewAnnotationParser ''!cookie sid:string "session"'' = Inr (Some a)\<close>
    by (simp only: append_Cons append_Nil)
  from * have 2: \<open>Type a = AnnotationQuery\<close> by (simp only:)
  from * have 3: \<open>Args a ''in'' = Some ''cookie''\<close> by (simp only:)
  from * have \<open>Args a ''name'' = Some ([''!cookie sid:string "session"'', ''cookie'', ''sid'', ''string'', ''session''] ! 2)\<close>
    by (simp only:)
  then have 4: \<open>Args a ''name'' = Some ''sid''\<close> by simp
  from * have \<open>Args a ''type'' = Some ([''!cookie sid:string "session"'', ''cookie'', ''sid'', ''string'', ''session''] ! 3)\<close>
    by (simp only:)
  then have 5: \<open>Args a ''type'' = Some ''string''\<close> by simp
  from 1 2 3 4 5 show ?thesis by (intro exI conjI)
qed


subsection \<open>The annotation types each parse function returns\<close>

lemma tryMatchers_Some:
  "tryMatchers ms line = Some a \<Longrightarrow>
     \<exists>pattern aType keys match. (pattern, aType, keys) \<in> set ms \<and>
        FindStringSubmatch pattern line = Some match \<and>
        a = \<lparr>Type = aType, RawLine = line, Args = fillArgs match keys 0 Map.empty, Tags = []\<rparr>"
proof (induction ms)
  case Nil
  then show ?case by simp
next
  case (Cons x ms)
  obtain pattern aType keys where x: "x = (pattern, aType, keys)" by (cases x)
  show ?case
  proof (cases "FindStringSubmatch pattern line")
    case None
    with Cons.prems x have "tryMatchers ms line = Some a" by simp
    from Cons.IH [OF this] show ?thesis by auto
  next
    case (Some match)
    with Cons.prems x
    have "a = \<lparr>Type = aType, RawLine = line, Args = fillArgs match keys 0 Map.empty, Tags = []\<rparr>"
      by simp
    with Some x show ?thesis by auto
  qed
qed

definition simpleTypes :: "AnnotationType set" where
  "simpleTypes = {AnnotationAPI, AnnotationInfo, AnnotationContact, AnnotationLicense,
     AnnotationServer, AnnotationTag, AnnotationTOS, AnnotationSecurity, AnnotationScope,
     AnnotationExternalDocs, AnnotationLink}"

lemma parseSimplePatterns_Type:
  assumes "parseSimplePatterns p line = Inr (Some a)"
  shows "Type a \<in> simpleTypes"
proof -
  from assms have "tryMatchers (matchers p) line = Some a" by (simp add: parseSimplePatterns_def)
  from tryMatchers_Some [OF this] obtain pattern aType keys match where
    "(pattern, aType, keys) \<in> set (matchers p)" and
    "a = \<lparr>Type = aType, RawLine = line, Args = fillArgs match keys 0 Map.empty, Tags = []\<rparr>"
    by blast
  then show ?thesis by (auto simp: matchers_def simpleTypes_def)
qed

lemma parseRoutePattern_Type:
  "parseRoutePattern p line = Inr (Some a) \<Longrightarrow> Type a = AnnotationRoute"
  by (auto simp: parseRoutePattern_def bindE_def split: option.splits sum.splits)

lemma parseResponsePattern_Type:
  "parseResponsePattern p line = Inr (Some a) \<Longrightarrow> Type a = AnnotationOK \<or> Type a = AnnotationError"
  by (auto simp: parseResponsePattern_def bindE_def Let_def split: option.splits sum.splits if_splits)

lemma parseSecurePattern_Type:
  "parseSecurePattern p line = Inr (Some a) \<Longrightarrow> Type a = AnnotationSecure"
  by (auto simp: parseSecurePattern_def bindE_def Let_def split: option.splits sum.splits)

lemma parseWebhookPattern_Type:
  "parseWebhookPattern p line = Inr (Some a) \<Longrightarrow>
     Type a = AnnotationWebhook \<or> Type a = AnnotationWebhookBody \<or> Type a = AnnotationWebhookResponse"
  by (auto simp: parseWebhookPattern_def bindE_def split: option.splits sum.splits)

lemma parseModelPattern_Type:
  "parseModelPattern p line = Inr (Some a) \<Longrightarrow> Type a = AnnotationModel"
  by (auto simp: parseModelPattern_def bindE_def split: option.splits sum.splits)

lemma parseParamPattern_required:
  "parseParamPattern p line = Inr (Some a) \<Longrightarrow>
     (Type a = AnnotationQuery \<or> Type a = AnnotationPath \<or> Type a = AnnotationHeader) \<and>
     Args a ''required'' = (if Contains line '' required'' then Some argTrue else None)"
  by (auto simp: parseParamPattern_def bindE_def Let_def split: option.splits sum.splits if_splits)

lemma parseBodyPattern_required:
  "parseBodyPattern p line = Inr (Some a) \<Longrightarrow>
     Type a = AnnotationBody \<and>
     Args a ''required'' = (if Contains line '' required'' then Some argTrue else None)"
  by (auto simp: parseBodyPattern_def bindE_def Let_def split: option.splits sum.splits if_splits)

lemma parseFieldPattern_required:
  "parseFieldPattern p line = Inr (Some a) \<Longrightarrow>
     Type a = AnnotationField \<and>
     Args a ''required'' = (if Contains line '' required'' then Some argTrue else None)"
  by (auto simp: parseFieldPattern_def bindE_def Let_def split: option.splits sum.splits if_splits)

subsection \<open>The required flag\<close>

lemma simpleTypes_not_param:
  "t \<in> simpleTypes \<Longrightarrow>
     t \<noteq> AnnotationQuery \<and> t \<noteq> AnnotationPath \<and> t \<noteq> AnnotationHeader \<and>
     t \<noteq> AnnotationBody \<and> t \<noteq> AnnotationField"
  by (auto simp: simpleTypes_def)

lemma map_sum_Some_D:
  "map_sum id (map_option f) x = Inr (Some y) \<Longrightarrow> \<exists>a. x = Inr (Some a) \<and> f a = y"
  by (cases x) auto

text \<open>
  Whatever the parser and its patterns: an annotation that \<open>parseLine\<close> returns for a
  line has its required flag set exactly when the line contains \<open>" required"\<close>.
\<close>

lemma required_of_parsed:
  assumes "parseLine p line = Inr (Some a)"
  shows "(Type a \<in> {AnnotationQuery, AnnotationPath, AnnotationHeader} \<longrightarrow>
            (Required (GetParam a) \<longleftrightarrow> Contains line '' required'')) \<and>
         (Type a = AnnotationBody \<longrightarrow>
            (BodyRequired (GetBody a) \<longleftrightarrow> Contains line '' required'')) \<and>
         (Type a = AnnotationField \<longrightarrow>
            (FieldRequired (GetField a) \<longleftrightarrow> Contains line '' required''))"
proof -
  from parseLine_cases [OF assms] consider
      (simple) "parseSimplePatterns p line = Inr (Some a)"
    | (route) "parseRoutePattern p line = Inr (Some a)"
    | (param) "parseParamPattern p line = Inr (Some a)"
    | (body) "parseBodyPattern p line = Inr (Some a)"
    | (response) "parseResponsePattern p line = Inr (Some a)"
    | (secure) "parseSecurePattern p line = Inr (Some a)"
    | (webhook) "parseWebhookPattern p line = Inr (Some a)"
    | (model) "parseModelPattern p line = Inr (Some a)"
    | (field) "parseFieldPattern p line = Inr (Some a)"
    by blast
  then show ?thesis
  proof cases
    case simple
    from simpleTypes_not_param [OF parseSimplePatterns_Type [OF simple]] show ?thesis by simp
  next
    case route
    from parseRoutePattern_Type [OF route] show ?thesis by simp
  next
    case param
    from parseParamPattern_required [OF param] show ?thesis
      by (auto simp: GetParam_def lookup_def)
  next
    case body
    from parseBodyPattern_required [OF body] show ?thesis
      by (auto simp: GetBody_def lookup_def)
  next
    case response
    from parseResponsePattern_Type [OF response] show ?thesis by auto
  next
    case secure
    from parseSecurePattern_Type [OF secure] show ?thesis by simp
  next
    case webhook
    from parseWebhookPattern_Type [OF webhook] show ?thesis by auto
  next
    case model
    from parseModelPattern_Type [OF model] show ?thesis by simp
  next
    case field
    from parseFieldPattern_required [OF field] show ?thesis
      by (auto simp: GetField_def lookup_def)
  qed
qed

subsection \<open>The default and example values\<close>

text \<open>The field grammar scans \<open>example=\<close> with a quoted alternative, so a quoted example
  keeps its spaces; an unquoted default is stored as written.\<close>

lemma example_quoted_with_space_kept:
  \<open>map_sum id (map_option (\<lambda>a. (Type a, FieldExample (GetField a))))
     (parseLine NewAnnotationParser ''!field q:string example="hello world"'') =
   Inr (Some (AnnotationField, ''hello world''))\<close>
  by code_simp

lemma default_unquoted_kept:
  \<open>map_sum id (map_option (\<lambda>a. (Type a, Default (GetParam a))))
     (parseLine NewAnnotationParser ''!query q:string default=hello'') =
   Inr (Some (AnnotationQuery, ''hello''))\<close>
  by code_simp

text \<open>
  Claim C4. The claim says that \<open>default="X"\<close> stores \<open>X\<close> also when the quoted \<open>X\<close>
  contains spaces. The parameter grammar scans the default with \<open>default=(\S+)\<close>, which
  has no quoted alternative: on the line below the group stops at the first space, and
  the stored default is \<open>hello\<close>, not \<open>hello world\<close>.
\<close>

theorem default_quoted_with_space_truncated:
  \<open>map_sum id (map_option (\<lambda>a. (Type a, Default (GetParam a))))
     (parseLine NewAnnotationParser ''!query q:string default="hello world"'') =
   Inr (Some (AnnotationQuery, ''hello''))\<close>
  by code_simp

subsection \<open>The attribute keys of each annotation type\<close>

text \<open>The keys the parse functions always store, by annotation type: the key lists of
  \<open>parseSimplePatterns\<close> and the map literals of the other parse functions.\<close>

fun kindKeys :: "AnnotationType \<Rightarrow> string list" where
  "kindKeys AnnotationAPI = [''version'']"
| "kindKeys AnnotationInfo = [''title'', ''version'', ''description'']"
| "kindKeys AnnotationContact = [''name'', ''email'', ''url'']"
| "kindKeys AnnotationLicense = [''name'', ''url'']"
| "kindKeys AnnotationServer = [''url'', ''description'']"
| "kindKeys AnnotationTag = [''name'', ''description'']"
| "kindKeys AnnotationTOS = [''url'']"
| "kindKeys AnnotationSecurity = [''name'', ''type'', ''location'', ''description'', ''url'']"
| "kindKeys AnnotationScope = [''security'', ''name'', ''description'']"
| "kindKeys AnnotationExternalDocs = [''url'', ''description'']"
| "kindKeys AnnotationLink = [''label'', ''url'']"
| "kindKeys AnnotationWebhook = [''name'', ''method'', ''description'']"
| "kindKeys AnnotationWebhookBody = [''schema'', ''description'']"
| "kindKeys AnnotationWebhookResponse = [''status'', ''schema'', ''description'']"
| "kindKeys AnnotationRoute = [''method'', ''path'', ''operationId'', ''summary'']"
| "kindKeys AnnotationQuery = [''in'', ''name'', ''type'', ''description'']"
| "kindKeys AnnotationPath = [''in'', ''name'', ''type'', ''description'']"
| "kindKeys AnnotationHeader = [''in'', ''name'', ''type'', ''description'']"
| "kindKeys AnnotationBody = [''schema'', ''description'']"
| "kindKeys AnnotationOK = [''status'', ''schema'', ''description'']"
| "kindKeys AnnotationError = [''status'', ''schema'', ''description'']"
| "kindKeys AnnotationSecure = [''names'']"
| "kindKeys AnnotationModel = [''description'']"
| "kindKeys AnnotationField = [''name'', ''type'', ''description'']"

lemma fillArgs_dom:
  "length keys + i < length match \<Longrightarrow>
     dom (fillArgs match keys i args) = dom args \<union> set keys"
  by (induction keys arbitrary: i args) auto

lemma matchers_keys:
  "(pattern, aType, keys) \<in> set (matchers NewAnnotationParser) \<Longrightarrow>
     kindKeys aType = keys \<and> length keys = NumSubexp pattern"
  by (auto simp: matchers_def NewAnnotationParser_def)

lemma parseSimplePatterns_keys:
  assumes "parseSimplePatterns NewAnnotationParser line = Inr (Some a)"
  shows "set (kindKeys (Type a)) \<subseteq> dom (Args a)"
proof -
  from assms have "tryMatchers (matchers NewAnnotationParser) line = Some a"
    by (simp add: parseSimplePatterns_def)
  from tryMatchers_Some [OF this] obtain pattern aType keys match where
    m: "(pattern, aType, keys) \<in> set (matchers NewAnnotationParser)" and
    f: "FindStringSubmatch pattern line = Some match" and
    a: "a = \<lparr>Type = aType, RawLine = line, Args = fillArgs match keys 0 Map.empty, Tags = []\<rparr>"
    by blast
  from matchers_keys [OF m] FindStringSubmatch_length [OF f]
  have "kindKeys aType = keys" and "length keys + 0 < length match" by simp_all
  with a show ?thesis by (simp add: fillArgs_dom)
qed

lemma parseRoutePattern_keys:
  "parseRoutePattern p line = Inr (Some a) \<Longrightarrow> set (kindKeys (Type a)) \<subseteq> dom (Args a)"
  by (auto simp: parseRoutePattern_def bindE_def split: option.splits sum.splits)

lemma parseParamPattern_keys:
  "parseParamPattern p line = Inr (Some a) \<Longrightarrow> set (kindKeys (Type a)) \<subseteq> dom (Args a)"
  by (auto simp: parseParamPattern_def bindE_def Let_def split: option.splits sum.splits if_splits)

lemma parseBodyPattern_keys:
  "parseBodyPattern p line = Inr (Some a) \<Longrightarrow> set (kindKeys (Type a)) \<subseteq> dom (Args a)"
  by (auto simp: parseBodyPattern_def bindE_def Let_def split: option.splits sum.splits if_splits)

lemma parseResponsePattern_keys:
  "parseResponsePattern p line = Inr (Some a) \<Longrightarrow> set (kindKeys (Type a)) \<subseteq> dom (Args a)"
  by (auto simp: parseResponsePattern_def bindE_def Let_def split: option.splits sum.splits if_splits)

lemma parseSecurePattern_keys:
  "parseSecurePattern p line = Inr (Some a) \<Longrightarrow> set (kindKeys (Type a)) \<subseteq> dom (Args a)"
  by (auto simp: parseSecurePattern_def bindE_def Let_def split: option.splits sum.splits)

lemma parseWebhookPattern_keys:
  "parseWebhookPattern p line = Inr (Some a) \<Longrightarrow> set (kindKeys (Type a)) \<subseteq> dom (Args a)"
  by (auto simp: parseWebhookPattern_def bindE_def split: option.splits sum.splits)

lemma parseModelPattern_keys:
  "parseModelPattern p line = Inr (Some a) \<Longrightarrow> set (kindKeys (Type a)) \<subseteq> dom (Args a)"
  by (auto simp: parseModelPattern_def bindE_def split: option.splits sum.splits)

lemma parseFieldPattern_keys:
  "parseFieldPattern p line = Inr (Some a) \<Longrightarrow> set (kindKeys (Type a)) \<subseteq> dom (Args a)"
  by (auto simp: parseFieldPattern_def bindE_def Let_def split: option.splits sum.splits if_splits)

lemma parseLine_keys:
  assumes "parseLine NewAnnotationParser line = Inr (Some a)"
  shows "set (kindKeys (Type a)) \<subseteq> dom (Args a)"
  using parseLine_cases [OF assms]
  by (elim disjE)
    (rule parseSimplePatterns_keys, assumption, rule parseRoutePattern_keys, assumption,
     rule parseParamPattern_keys, assumption, rule parseBodyPattern_keys, assumption,
     rule parseResponsePattern_keys, assumption, rule parseSecurePattern_keys, assumption,
     rule parseWebhookPattern_keys, assumption, rule parseModelPattern_keys, assumption,
     rule parseFieldPattern_keys, assumption)

subsection \<open>The parse functions never panic\<close>

lemma collectTags_Inr:
  "(\<And>m. m \<in> set ms \<Longrightarrow> 1 < length m) \<Longrightarrow>
     collectTags ms tags = Inr (tags @ map (\<lambda>m. m ! 1) ms)"
  by (induction ms arbitrary: tags) auto

lemma extractTags_Inr:
  "extractTags line = Inr (map (\<lambda>m. m ! 1) (FindAllStringSubmatch hashtagPattern line))"
proof -
  have "\<And>m. m \<in> set (FindAllStringSubmatch hashtagPattern line) \<Longrightarrow> 1 < length m"
    by (auto simp: FindAllStringSubmatch_def NumSubexp_patterns dest!: allMatches_length)
  from collectTags_Inr [OF this, of _ "[]"] show ?thesis by (simp add: extractTags_def)
qed

lemma parseSimplePatterns_total: "\<exists>r. parseSimplePatterns p line = Inr r"
  by (simp add: parseSimplePatterns_def)

lemma parseRoutePattern_total: "\<exists>r. parseRoutePattern NewAnnotationParser line = Inr r"
proof (cases "FindStringSubmatch (routePattern NewAnnotationParser) line")
  case None
  then show ?thesis by (simp add: parseRoutePattern_def)
next
  case (Some m)
  from FindStringSubmatch_length [OF Some] have "length m = 5" by (simp add: NumSubexp_patterns)
  with Some show ?thesis by (simp add: parseRoutePattern_def extractTags_Inr)
qed

lemma parseParamPattern_total: "\<exists>r. parseParamPattern NewAnnotationParser line = Inr r"
proof (cases "FindStringSubmatch (paramPattern NewAnnotationParser) line")
  case None
  then show ?thesis by (simp add: parseParamPattern_def)
next
  case (Some m)
  from parseParamPattern_Some [OF Some] show ?thesis by blast
qed

lemma parseBodyPattern_total: "\<exists>r. parseBodyPattern NewAnnotationParser line = Inr r"
proof (cases "FindStringSubmatch (bodyPattern NewAnnotationParser) line")
  case None
  then show ?thesis by (simp add: parseBodyPattern_def)
next
  case (Some m)
  from FindStringSubmatch_length [OF Some] have "length m = 3" by (simp add: NumSubexp_patterns)
  with Some show ?thesis by (simp add: parseBodyPattern_def Let_def)
qed

lemma parseResponsePattern_total: "\<exists>r. parseResponsePattern NewAnnotationParser line = Inr r"
proof (cases "FindStringSubmatch (responsePattern NewAnnotationParser) line")
  case None
  then show ?thesis by (simp add: parseResponsePattern_def)
next
  case (Some m)
  from FindStringSubmatch_length [OF Some] have "length m = 5" by (simp add: NumSubexp_patterns)
  with Some show ?thesis by (simp add: parseResponsePattern_def Let_def)
qed

lemma parseSecurePattern_total: "\<exists>r. parseSecurePattern NewAnnotationParser line = Inr r"
proof (cases "FindStringSubmatch (securePattern NewAnnotationParser) line")
  case None
  then show ?thesis by (simp add: parseSecurePattern_def)
next
  case (Some m)
  from FindStringSubmatch_length [OF Some] have "length m = 2" by (simp add: NumSubexp_patterns)
  with Some show ?thesis by (simp add: parseSecurePattern_def Let_def)
qed

lemma parseWebhookPattern_total: "\<exists>r. parseWebhookPattern NewAnnotationParser line = Inr r"
proof -
  have 1: "length m = 4" if "FindStringSubmatch (webhookPattern NewAnnotationParser) line = Some m" for m
    using FindStringSubmatch_length [OF that] by (simp add: NumSubexp_patterns)
  have 2: "length m = 3" if "FindStringSubmatch (webhookBodyPattern NewAnnotationParser) line = Some m" for m
    using FindStringSubmatch_length [OF that] by (simp add: NumSubexp_patterns)
  have 3: "length m = 4" if "FindStringSubmatch (webhookRespPattern NewAnnotationParser) line = Some m" for m
    using FindStringSubmatch_length [OF that] by (simp add: NumSubexp_patterns)
  show ?thesis
    by (auto simp: parseWebhookPattern_def 1 2 3 split: option.splits)
qed

lemma parseModelPattern_total: "\<exists>r. parseModelPattern NewAnnotationParser line = Inr r"
proof (cases "FindStringSubmatch (modelPattern NewAnnotationParser) line")
  case None
  then show ?thesis by (simp add: parseModelPattern_def)
next
  case (Some m)
  from FindStringSubmatch_length [OF Some] have "length m = 2" by (simp add: NumSubexp_patterns)
  with Some show ?thesis by (simp add: parseModelPattern_def)
qed

lemma parseFieldPattern_total: "\<exists>r. parseFieldPattern NewAnnotationParser line = Inr r"
proof (cases "FindStringSubmatch (fieldPattern NewAnnotationParser) line")
  case None
  then show ?thesis by (simp add: parseFieldPattern_def)
next
  case (Some m)
  from FindStringSubmatch_length [OF Some] have len: "length m = 4" by (simp add: NumSubexp_patterns)
  show ?thesis
  proof (cases "FindStringSubmatch examplePattern line")
    case None
    with Some len show ?thesis by (simp add: parseFieldPattern_def Let_def)
  next
    case (Some e)
    from FindStringSubmatch_length [OF Some] have "length e = 2" by (simp add: NumSubexp_patterns)
    with Some \<open>FindStringSubmatch (fieldPattern NewAnnotationParser) line = Some m\<close> len
    show ?thesis by (simp add: parseFieldPattern_def Let_def)
  qed
qed

lemma orElse_total: "\<exists>r. x = Inr r \<Longrightarrow> \<exists>r. y = Inr r \<Longrightarrow> \<exists>r. orElse x y = Inr r"
  by (auto simp: orElse_def split: option.splits)

lemma parseLine_total: "\<exists>r. parseLine NewAnnotationParser line = Inr r"
  unfolding parseLine_def
  by (intro orElse_total parseSimplePatterns_total parseRoutePattern_total
      parseParamPattern_total parseBodyPattern_total parseResponsePattern_total
      parseSecurePattern_total parseWebhookPattern_total parseModelPattern_total
      parseFieldPattern_total)

text \<open>What one line of the text adds to the result of \<open>Parse\<close>.\<close>

definition lineAnnotation :: "AnnotationParser \<Rightarrow> string \<Rightarrow> Annotation option" where
  "lineAnnotation p l =
     (if HasPrefix (TrimSpace l) ''!''
      then (case parseLine p (TrimSpace l) of Inr r \<Rightarrow> r | Inl e \<Rightarrow> None)
      else None)"

lemma ParseLines_map_filter:
  "ParseLines NewAnnotationParser ls annotations =
     Inr (annotations @ List.map_filter (lineAnnotation NewAnnotationParser) ls)"
proof (induction ls arbitrary: annotations)
  case Nil
  then show ?case by (simp add:)
next
  case (Cons l ls)
  obtain r where r: "parseLine NewAnnotationParser (TrimSpace l) = Inr r"
    using parseLine_total by blast
  show ?case
    by (cases r) (simp_all add: Cons.IH r lineAnnotation_def Let_def)
qed

lemma Parse_map_filter:
  "Parse NewAnnotationParser text =
     Inr (List.map_filter (lineAnnotation NewAnnotationParser) (Split text (CHR 0x0A)))"
  by (simp add: Parse_def ParseLines_map_filter)

lemma Parse_member:
  assumes "Parse NewAnnotationParser text = Inr anns" and "a \<in> set anns"
  shows "\<exists>l \<in> set (Split text (CHR 0x0A)).
           HasPrefix (TrimSpace l) ''!'' \<and> parseLine NewAnnotationParser (TrimSpace l) = Inr (Some a)"
proof -
  from assms have "a \<in> set (List.map_filter (lineAnnotation NewAnnotationParser) (Split text (CHR 0x0A)))"
    by (simp add: Parse_map_filter)
  then obtain l where "l \<in> set (Split text (CHR 0x0A))" "lineAnnotation NewAnnotationParser l = Some a"
    by (auto simp: List.map_filter_def)
  then show ?thesis
    by (auto simp: lineAnnotation_def split: if_splits sum.splits)
qed

subsection \<open>The keywords of the grammars\<close>

definition directiveKeywords :: "string list" where
  "directiveKeywords =
     [''!api'', ''!info'', ''!contact'', ''!license'', ''!server'', ''!tag'', ''!tos'',
      ''!security'', ''!scope'', ''!externalDocs'', ''!link'',
      ''!GET'', ''!POST'', ''!PUT'', ''!DELETE'', ''!PATCH'', ''!OPTIONS'', ''!HEAD'',
      ''!query'', ''!path'', ''!header'', ''!cookie'', ''!body'', ''!ok'', ''!error'',
      ''!secure'', ''!webhook'', ''!webhook-body'', ''!webhook-response'', ''!model'',
      ''!field'']"

lemma match_Str_prefix:
  "FindStringSubmatch (Seq Bol (Seq (Str w) R)) line = Some m \<Longrightarrow> HasPrefix line w"
  by (auto simp: FindStringSubmatch_anchored HasPrefix_def split: if_splits)

lemma run_alts_Str:
  "run t (alts (Str w) (map Str ws)) (s, c) \<noteq> [] \<Longrightarrow> \<exists>v \<in> set (w # ws). take (length v) s = v"
  by (induction ws arbitrary: w) (auto split: if_splits)

lemma run_Seq_Nil: "run t a st = [] \<Longrightarrow> run t (Seq a b) st = []"
  by simp

lemma run_Grp_Nil: "run t a (s, c) = [] \<Longrightarrow> run t (Grp i a) (s, c) = []"
  by simp

lemma match_alts_prefix:
  assumes "FindStringSubmatch (Seq Bol (Seq (Str ''!'') (Seq (Grp i (alts (Str w) (map Str ws))) R))) line = Some m"
  shows "\<exists>v \<in> set (w # ws). HasPrefix line (''!'' @ v)"
proof -
  from assms have p: "take 1 line = ''!''"
    and r: "run line (Seq (Grp i (alts (Str w) (map Str ws))) R)
              (drop 1 line, replicate (Suc (NumSubexp (Seq (Str ''!'') (Seq (Grp i (alts (Str w) (map Str ws))) R)))) []) \<noteq> []"
    by (auto simp only: FindStringSubmatch_anchored run_Seq_Str length_Cons list.size One_nat_def
        split: if_splits list.splits)
  from r have "run line (alts (Str w) (map Str ws))
      (drop 1 line, replicate (Suc (NumSubexp (Seq (Str ''!'') (Seq (Grp i (alts (Str w) (map Str ws))) R)))) []) \<noteq> []"
    using run_Seq_Nil run_Grp_Nil by blast
  from run_alts_Str [OF this] obtain v where v: "v \<in> set (w # ws)" "take (length v) (drop 1 line) = v"
    by blast
  from p obtain rest where line: "line = CHR ''!'' # rest" by (cases line) auto
  with v have "HasPrefix line (''!'' @ v)" by (simp add: HasPrefix_def)
  with v(1) show ?thesis by blast
qed

lemma pattern_shapes:
  "\<exists>R. apiPattern NewAnnotationParser = Seq Bol (Seq (Str ''!api'') R)"
  "\<exists>R. infoPattern NewAnnotationParser = Seq Bol (Seq (Str ''!info'') R)"
  "\<exists>R. contactPattern NewAnnotationParser = Seq Bol (Seq (Str ''!contact'') R)"
  "\<exists>R. licensePattern NewAnnotationParser = Seq Bol (Seq (Str ''!license'') R)"
  "\<exists>R. serverPattern NewAnnotationParser = Seq Bol (Seq (Str ''!server'') R)"
  "\<exists>R. tagPattern NewAnnotationParser = Seq Bol (Seq (Str ''!tag'') R)"
  "\<exists>R. tosPattern NewAnnotationParser = Seq Bol (Seq (Str ''!tos'') R)"
  "\<exists>R. securityPattern NewAnnotationParser = Seq Bol (Seq (Str ''!security'') R)"
  "\<exists>R. scopePattern NewAnnotationParser = Seq Bol (Seq (Str ''!scope'') R)"
  "\<exists>R. externalDocsPattern NewAnnotationParser = Seq Bol (Seq (Str ''!externalDocs'') R)"
  "\<exists>R. linkPattern NewAnnotationParser = Seq Bol (Seq (Str ''!link'') R)"
  "\<exists>R. webhookPattern NewAnnotationParser = Seq Bol (Seq (Str ''!webhook'') R)"
  "\<exists>R. webhookBodyPattern NewAnnotationParser = Seq Bol (Seq (Str ''!webhook-body'') R)"
  "\<exists>R. webhookRespPattern NewAnnotationParser = Seq Bol (Seq (Str ''!webhook-response'') R)"
  "\<exists>R. bodyPattern NewAnnotationParser = Seq Bol (Seq (Str ''!body'') R)"
  "\<exists>R. securePattern NewAnnotationParser = Seq Bol (Seq (Str ''!secure'') R)"
  "\<exists>R. modelPattern NewAnnotationParser = Seq Bol (Seq (Str ''!model'') R)"
  "\<exists>R. fieldPattern NewAnnotationParser = Seq Bol (Seq (Str ''!field'') R)"
  by (simp_all add: NewAnnotationParser_def)

lemma alt_pattern_shapes:
  "\<exists>R. routePattern NewAnnotationParser = Seq Bol (Seq (Str ''!'')
     (Seq (Grp 1 (alts (Str ''GET'') (map Str [''POST'', ''PUT'', ''DELETE'', ''PATCH'', ''OPTIONS'', ''HEAD'']))) R))"
  "\<exists>R. paramPattern NewAnnotationParser = Seq Bol (Seq (Str ''!'')
     (Seq (Grp 1 (alts (Str ''query'') (map Str [''path'', ''header'', ''cookie'']))) R))"
  "\<exists>R. responsePattern NewAnnotationParser = Seq Bol (Seq (Str ''!'')
     (Seq (Grp 1 (alts (Str ''ok'') (map Str [''error'']))) R))"
  by (simp_all add: NewAnnotationParser_def)

text \<open>The line starts with the text of one of the keywords. This is a test of the first
  bytes only: it also holds of \<open>!apiary\<close>, which starts with \<open>!api\<close>.\<close>

definition startsWithKeyword :: "string \<Rightarrow> bool" where
  "startsWithKeyword line = list_ex (HasPrefix line) directiveKeywords"

lemma startsWithKeywordI: "HasPrefix line k \<Longrightarrow> k \<in> set directiveKeywords \<Longrightarrow> startsWithKeyword line"
  by (auto simp: startsWithKeyword_def list_ex_iff)

lemma match_keyword:
  assumes "FindStringSubmatch pat line = Some m"
    and "pat = Seq Bol (Seq (Str w) R)" and "w \<in> set directiveKeywords"
  shows "startsWithKeyword line"
  using assms match_Str_prefix startsWithKeywordI by blast

lemma shape_prefix:
  "\<exists>R. pat = Seq Bol (Seq (Str w) R) \<Longrightarrow> FindStringSubmatch pat line = Some m \<Longrightarrow> HasPrefix line w"
  using match_Str_prefix by blast

lemmas keyword_prefixes =
  shape_prefix [OF pattern_shapes(1)] shape_prefix [OF pattern_shapes(2)]
  shape_prefix [OF pattern_shapes(3)] shape_prefix [OF pattern_shapes(4)]
  shape_prefix [OF pattern_shapes(5)] shape_prefix [OF pattern_shapes(6)]
  shape_prefix [OF pattern_shapes(7)] shape_prefix [OF pattern_shapes(8)]
  shape_prefix [OF pattern_shapes(9)] shape_prefix [OF pattern_shapes(10)]
  shape_prefix [OF pattern_shapes(11)] shape_prefix [OF pattern_shapes(12)]
  shape_prefix [OF pattern_shapes(13)] shape_prefix [OF pattern_shapes(14)]
  shape_prefix [OF pattern_shapes(15)] shape_prefix [OF pattern_shapes(16)]
  shape_prefix [OF pattern_shapes(17)] shape_prefix [OF pattern_shapes(18)]


lemma alt_prefix:
  assumes "\<exists>R. pat = Seq Bol (Seq (Str ''!'') (Seq (Grp i (alts (Str w) (map Str ws))) R))"
    and "FindStringSubmatch pat line = Some m"
    and "\<And>v. v \<in> set (w # ws) \<Longrightarrow> ''!'' @ v \<in> set directiveKeywords"
  shows "startsWithKeyword line"
proof -
  from assms(1,2) match_alts_prefix obtain v where "v \<in> set (w # ws)" "HasPrefix line (''!'' @ v)"
    by blast
  with assms(3) show ?thesis using startsWithKeywordI by blast
qed

lemma route_keyword:
  "FindStringSubmatch (routePattern NewAnnotationParser) line = Some m \<Longrightarrow> startsWithKeyword line"
  by (erule alt_prefix [OF alt_pattern_shapes(1)]) (auto simp: directiveKeywords_def)

lemma param_keyword:
  "FindStringSubmatch (paramPattern NewAnnotationParser) line = Some m \<Longrightarrow> startsWithKeyword line"
  by (erule alt_prefix [OF alt_pattern_shapes(2)]) (auto simp: directiveKeywords_def)

lemma response_keyword:
  "FindStringSubmatch (responsePattern NewAnnotationParser) line = Some m \<Longrightarrow> startsWithKeyword line"
  by (erule alt_prefix [OF alt_pattern_shapes(3)]) (auto simp: directiveKeywords_def)

lemma str_keyword:
  "FindStringSubmatch (apiPattern NewAnnotationParser) line = Some m \<Longrightarrow> startsWithKeyword line"
  "FindStringSubmatch (infoPattern NewAnnotationParser) line = Some m \<Longrightarrow> startsWithKeyword line"
  "FindStringSubmatch (contactPattern NewAnnotationParser) line = Some m \<Longrightarrow> startsWithKeyword line"
  "FindStringSubmatch (licensePattern NewAnnotationParser) line = Some m \<Longrightarrow> startsWithKeyword line"
  "FindStringSubmatch (serverPattern NewAnnotationParser) line = Some m \<Longrightarrow> startsWithKeyword line"
  "FindStringSubmatch (tagPattern NewAnnotationParser) line = Some m \<Longrightarrow> startsWithKeyword line"
  "FindStringSubmatch (tosPattern NewAnnotationParser) line = Some m \<Longrightarrow> startsWithKeyword line"
  "FindStringSubmatch (securityPattern NewAnnotationParser) line = Some m \<Longrightarrow> startsWithKeyword line"
  "FindStringSubmatch (scopePattern NewAnnotationParser) line = Some m \<Longrightarrow> startsWithKeyword line"
  "FindStringSubmatch (externalDocsPattern NewAnnotationParser) line = Some m \<Longrightarrow> startsWithKeyword line"
  "FindStringSubmatch (linkPattern NewAnnotationParser) line = Some m \<Longrightarrow> startsWithKeyword line"
  "FindStringSubmatch (webhookPattern NewAnnotationParser) line = Some m \<Longrightarrow> startsWithKeyword line"
  "FindStringSubmatch (webhookBodyPattern NewAnnotationParser) line = Some m \<Longrightarrow> startsWithKeyword line"
  "FindStringSubmatch (webhookRespPattern NewAnnotationParser) line = Some m \<Longrightarrow> startsWithKeyword line"
  "FindStringSubmatch (bodyPattern NewAnnotationParser) line = Some m \<Longrightarrow> startsWithKeyword line"
  "FindStringSubmatch (securePattern NewAnnotationParser) line = Some m \<Longrightarrow> startsWithKeyword line"
  "FindStringSubmatch (modelPattern NewAnnotationParser) line = Some m \<Longrightarrow> startsWithKeyword line"
  "FindStringSubmatch (fieldPattern NewAnnotationParser) line = Some m \<Longrightarrow> startsWithKeyword line"
  by (drule keyword_prefixes, erule startsWithKeywordI, simp add: directiveKeywords_def)+

lemma simple_match_keyword:
  assumes "(pattern, aType, keys) \<in> set (matchers NewAnnotationParser)"
    and "FindStringSubmatch pattern line = Some m"
  shows "startsWithKeyword line"
proof -
  from assms(1) have "pattern \<in> {apiPattern NewAnnotationParser, infoPattern NewAnnotationParser,
      contactPattern NewAnnotationParser, licensePattern NewAnnotationParser,
      serverPattern NewAnnotationParser, tagPattern NewAnnotationParser,
      tosPattern NewAnnotationParser, securityPattern NewAnnotationParser,
      scopePattern NewAnnotationParser, externalDocsPattern NewAnnotationParser,
      linkPattern NewAnnotationParser}"
    by (auto simp: matchers_def)
  with assms(2) show ?thesis
    by (elim insertE emptyE) (hypsubst, erule str_keyword)+
qed

lemma parseLine_keyword:
  assumes "parseLine NewAnnotationParser line = Inr (Some a)"
  shows "startsWithKeyword line"
proof -
  from parseLine_cases [OF assms] consider
      (simple) "parseSimplePatterns NewAnnotationParser line = Inr (Some a)"
    | (route) "parseRoutePattern NewAnnotationParser line = Inr (Some a)"
    | (param) "parseParamPattern NewAnnotationParser line = Inr (Some a)"
    | (body) "parseBodyPattern NewAnnotationParser line = Inr (Some a)"
    | (response) "parseResponsePattern NewAnnotationParser line = Inr (Some a)"
    | (secure) "parseSecurePattern NewAnnotationParser line = Inr (Some a)"
    | (webhook) "parseWebhookPattern NewAnnotationParser line = Inr (Some a)"
    | (model) "parseModelPattern NewAnnotationParser line = Inr (Some a)"
    | (field) "parseFieldPattern NewAnnotationParser line = Inr (Some a)"
    by blast
  then show ?thesis
  proof cases
    case simple
    then have "tryMatchers (matchers NewAnnotationParser) line = Some a"
      by (simp add: parseSimplePatterns_def)
    from tryMatchers_Some [OF this] simple_match_keyword show ?thesis by blast
  next
    case route
    then obtain m where "FindStringSubmatch (routePattern NewAnnotationParser) line = Some m"
      by (auto simp: parseRoutePattern_def split: option.splits)
    then show ?thesis by (rule route_keyword)
  next
    case param
    then obtain m where "FindStringSubmatch (paramPattern NewAnnotationParser) line = Some m"
      by (auto simp: parseParamPattern_def split: option.splits)
    then show ?thesis by (rule param_keyword)
  next
    case body
    then obtain m where "FindStringSubmatch (bodyPattern NewAnnotationParser) line = Some m"
      by (auto simp: parseBodyPattern_def split: option.splits)
    then show ?thesis by (rule str_keyword)
  next
    case response
    then obtain m where "FindStringSubmatch (responsePattern NewAnnotationParser) line = Some m"
      by (auto simp: parseResponsePattern_def split: option.splits)
    then show ?thesis by (rule response_keyword)
  next
    case secure
    then obtain m where "FindStringSubmatch (securePattern NewAnnotationParser) line = Some m"
      by (auto simp: parseSecurePattern_def split: option.splits)
    then show ?thesis by (rule str_keyword)
  next
    case webhook
    then consider m where "FindStringSubmatch (webhookPattern NewAnnotationParser) line = Some m"
      | m where "FindStringSubmatch (webhookBodyPattern NewAnnotationParser) line = Some m"
      | m where "FindStringSubmatch (webhookRespPattern NewAnnotationParser) line = Some m"
      by (auto simp: parseWebhookPattern_def split: option.splits)
    then show ?thesis by cases (erule str_keyword)+
  next
    case model
    then obtain m where "FindStringSubmatch (modelPattern NewAnnotationParser) line = Some m"
      by (auto simp: parseModelPattern_def split: option.splits)
    then show ?thesis by (rule str_keyword)
  next
    case field
    then obtain m where "FindStringSubmatch (fieldPattern NewAnnotationParser) line = Some m"
      by (auto simp: parseFieldPattern_def split: option.splits)
    then show ?thesis by (rule str_keyword)
  qed
qed

subsection \<open>Parse never fails and keeps the line order\<close>


lemma parseLine_no_keyword:
  assumes "\<not> startsWithKeyword line"
  shows "parseLine NewAnnotationParser line = Inr None"
proof -
  obtain r where r: "parseLine NewAnnotationParser line = Inr r" using parseLine_total by blast
  show ?thesis
  proof (cases r)
    case None
    with r show ?thesis by simp
  next
    case (Some a)
    with r parseLine_keyword assms show ?thesis by blast
  qed
qed





subsection \<open>Every annotation carries the keys of its type\<close>

lemma security_line_earlier_matchers:
  "FindStringSubmatch (apiPattern NewAnnotationParser) (''!security'' @ rest) = None"
  "FindStringSubmatch (infoPattern NewAnnotationParser) (''!security'' @ rest) = None"
  "FindStringSubmatch (contactPattern NewAnnotationParser) (''!security'' @ rest) = None"
  "FindStringSubmatch (licensePattern NewAnnotationParser) (''!security'' @ rest) = None"
  "FindStringSubmatch (serverPattern NewAnnotationParser) (''!security'' @ rest) = None"
  "FindStringSubmatch (tagPattern NewAnnotationParser) (''!security'' @ rest) = None"
  "FindStringSubmatch (tosPattern NewAnnotationParser) (''!security'' @ rest) = None"
  by (simp_all add: NewAnnotationParser_def FindStringSubmatch_anchored)

lemma fillArgs_security:
  "length m = 6 \<Longrightarrow>
     fillArgs m [''name'', ''type'', ''location'', ''description'', ''url''] 0 Map.empty =
       [''name'' \<mapsto> m ! 1, ''type'' \<mapsto> m ! 2, ''location'' \<mapsto> m ! 3,
        ''description'' \<mapsto> m ! 4, ''url'' \<mapsto> m ! 5]"
  by (simp add: numeral_eq_Suc)

lemma security_line_annotation:
  assumes "FindStringSubmatch (securityPattern NewAnnotationParser) line = Some m"
  shows "parseLine NewAnnotationParser line =
     Inr (Some \<lparr>Type = AnnotationSecurity, RawLine = line,
                Args = [''name'' \<mapsto> m ! 1, ''type'' \<mapsto> m ! 2, ''location'' \<mapsto> m ! 3,
                        ''description'' \<mapsto> m ! 4, ''url'' \<mapsto> m ! 5],
                Tags = []\<rparr>)"
proof -
  from keyword_prefixes(8) [OF assms]
  have "take (length ''!security'') line = ''!security''"
    by (simp only: HasPrefix_def)
  then have "line = ''!security'' @ drop (length ''!security'') line"
    by (metis append_take_drop_id)
  then obtain rest where line: "line = ''!security'' @ rest" ..
  from FindStringSubmatch_length [OF assms] have len: "length m = 6"
    by (simp add: NewAnnotationParser_def)
  have "tryMatchers (matchers NewAnnotationParser) line =
      Some \<lparr>Type = AnnotationSecurity, RawLine = line,
            Args = fillArgs m [''name'', ''type'', ''location'', ''description'', ''url''] 0 Map.empty,
            Tags = []\<rparr>"
    using assms unfolding line
    by (simp only: matchers_def tryMatchers.simps security_line_earlier_matchers option.case)
  then show ?thesis
    by (simp only: parseLine_def orElse_def parseSimplePatterns_def fillArgs_security [OF len]
        sum.case option.case)
qed

lemma security_line_matches:
  "FindStringSubmatch (securityPattern NewAnnotationParser) ''!security k:http'' =
     Some [''!security k:http'', ''k'', ''http'', [], [], []]"
  by code_simp

lemma security_text_annotations:
  "map (\<lambda>a. (Type a, Args a ''location'', Args a ''description'', Args a ''url''))
     (List.map_filter (lineAnnotation NewAnnotationParser) (Split ''!security k:http'' (CHR 0x0A))) =
   [(AnnotationSecurity, Some [], Some [], Some [])]"
  by code_simp

text \<open>
  Claim C6. Every annotation that \<open>Parse\<close> returns has all the keys of its type
  (\<open>kindKeys\<close>) in its \<open>Args\<close> map. In particular an annotation of type security has
  the keys name, type, location, description and url; and every line that the security
  pattern matches yields exactly the annotation whose five attributes are the five
  groups of the match, a group that took no part in the match being the empty string.
\<close>

theorem annotation_keys_present:
  assumes "Parse NewAnnotationParser text = Inr anns" and "a \<in> set anns"
  shows "set (kindKeys (Type a)) \<subseteq> dom (Args a) \<and>
         (Type a = AnnotationSecurity \<longrightarrow>
            {''name'', ''type'', ''location'', ''description'', ''url''} \<subseteq> dom (Args a)) \<and>
         (\<forall>line m. FindStringSubmatch (securityPattern NewAnnotationParser) line = Some m \<longrightarrow>
            parseLine NewAnnotationParser line =
              Inr (Some \<lparr>Type = AnnotationSecurity, RawLine = line,
                Args = [''name'' \<mapsto> m ! 1, ''type'' \<mapsto> m ! 2, ''location'' \<mapsto> m ! 3,
                        ''description'' \<mapsto> m ! 4, ''url'' \<mapsto> m ! 5],
                Tags = []\<rparr>))"
proof -
  from Parse_member [OF assms] obtain l where
    "parseLine NewAnnotationParser (TrimSpace l) = Inr (Some a)" by blast
  then have k: "set (kindKeys (Type a)) \<subseteq> dom (Args a)" by (rule parseLine_keys)
  then have "Type a = AnnotationSecurity \<longrightarrow>
      {''name'', ''type'', ''location'', ''description'', ''url''} \<subseteq> dom (Args a)"
    by auto
  with k security_line_annotation show ?thesis by blast
qed


theorem annotation_keys_present_witness:
  "\<exists>anns a. Parse NewAnnotationParser ''!security k:http'' = Inr anns \<and> anns = [a] \<and>
     Type a = AnnotationSecurity \<and>
     {''name'', ''type'', ''location'', ''description'', ''url''} \<subseteq> dom (Args a) \<and>
     Args a ''location'' = Some [] \<and> Args a ''description'' = Some [] \<and> Args a ''url'' = Some [] \<and>
     FindStringSubmatch (securityPattern NewAnnotationParser) ''!security k:http'' =
       Some [''!security k:http'', ''k'', ''http'', [], [], []]"
proof -
  define anns where
    "anns = List.map_filter (lineAnnotation NewAnnotationParser) (Split ''!security k:http'' (CHR 0x0A))"
  have p: "Parse NewAnnotationParser ''!security k:http'' = Inr anns"
    unfolding anns_def by (rule Parse_map_filter)
  from security_text_annotations
  have m: "map (\<lambda>a. (Type a, Args a ''location'', Args a ''description'', Args a ''url'')) anns =
      [(AnnotationSecurity, Some [], Some [], Some [])]"
    unfolding anns_def .
  then obtain a where a: "anns = [a]" by (cases anns) auto
  with m have v: "Type a = AnnotationSecurity" "Args a ''location'' = Some []"
    "Args a ''description'' = Some []" "Args a ''url'' = Some []" by simp_all
  from a have "a \<in> set anns" by simp
  from annotation_keys_present [OF p this] v(1)
  have "{''name'', ''type'', ''location'', ''description'', ''url''} \<subseteq> dom (Args a)" by blast
  with p a v security_line_matches show ?thesis by blast
qed

section \<open>The first match of a pattern\<close>

text \<open>\<open>FindStringSubmatch\<close> returns the first result of \<open>run\<close>. The lemmas below
  compute that first result along a pattern, part by part.\<close>

definition firstMatch :: "mstate list \<Rightarrow> mstate option" where
  "firstMatch ms = (case ms of [] \<Rightarrow> None | m # _ \<Rightarrow> Some m)"

lemma firstMatch_simps [simp]:
  "firstMatch [] = None" "firstMatch (m # ms) = Some m"
  by (simp_all add: firstMatch_def)

lemma firstMatch_mem: "firstMatch ms = Some m \<Longrightarrow> m \<in> set ms"
  by (cases ms) auto

lemma firstMatch_append: "firstMatch xs = Some m \<Longrightarrow> firstMatch (xs @ ys) = Some m"
  by (cases xs) auto

lemma firstMatch_Seq:
  assumes "firstMatch (run t a st) = Some x" and "firstMatch (run t b x) = Some y"
  shows "firstMatch (run t (Seq a b) st) = Some y"
proof -
  from assms(1) obtain xs where "run t a st = x # xs" by (cases "run t a st") auto
  then have "run t (Seq a b) st = run t b x @ concat (map (run t b) xs)" by simp
  with assms(2) show ?thesis by (simp add: firstMatch_append)
qed

lemma firstMatch_Opt_skip: "run t a st = [] \<Longrightarrow> firstMatch (run t (Opt a) st) = Some st"
  by simp


lemma firstMatch_Opt_ex: "\<exists>x. firstMatch (run t (Opt a) st) = Some x"
  by (cases "run t a st") auto

lemma firstMatch_Grp:
  "firstMatch (run t a (s, c)) = Some (s', c') \<Longrightarrow>
     firstMatch (run t (Grp i a) (s, c)) = Some (s', c'[i := take (length s - length s') s])"
  by (cases "run t a (s, c)") auto

lemma firstMatch_Str: "firstMatch (run t (Str w) (w @ s, c)) = Some (s, c)"
  by simp

lemma takeWhile_run:
  "list_all P xs \<Longrightarrow> rest = [] \<or> \<not> P (hd rest) \<Longrightarrow> takeWhile P (xs @ rest) = xs"
  by (cases rest) (auto simp: list_all_iff takeWhile_append2)

lemma firstMatch_Plus:
  assumes "xs \<noteq> []" and "list_all (accepts a) xs" and "rest = [] \<or> \<not> accepts a (hd rest)"
  shows "firstMatch (run t (Plus a) (xs @ rest, c)) = Some (rest, c)"
proof -
  from assms(1) obtain n where n: "length xs = Suc n" by (cases xs) auto
  have "takeWhile (accepts a) (xs @ rest) = xs" using assms(2,3) by (rule takeWhile_run)
  then have "run t (Plus a) (xs @ rest, c) =
      map (\<lambda>k. (drop k (xs @ rest), c)) (rev [1..<Suc (Suc n)])"
    by (simp add: n)
  also have "rev [1..<Suc (Suc n)] = Suc n # rev [1..<Suc n]" by simp
  finally show ?thesis by (simp add: n)
qed

lemma run_Plus_Nil: "s = [] \<or> \<not> accepts a (hd s) \<Longrightarrow> run t (Plus a) (s, c) = []"
  by (cases s) auto

lemma run_Plus_states:
  "x \<in> set (run t (Plus a) (s, c)) \<Longrightarrow>
     \<exists>k. 1 \<le> k \<and> k \<le> length (takeWhile (accepts a) s) \<and> x = (drop k s, c)"
  by auto

subsection \<open>The response pattern\<close>

lemma digit_not_space: "accepts dg x \<Longrightarrow> \<not> accepts sp x"
  by (auto simp: Let_def)

lemma nsp_iff: "accepts nsp x \<longleftrightarrow> \<not> accepts sp x"
  by simp

lemma digit_nsp: "accepts dg x \<Longrightarrow> accepts nsp x"
  by (auto simp: Let_def)

text \<open>The optional status part \<open>(\d+)\s+\<close> of the response pattern.\<close>

definition statusPart :: regex where
  "statusPart = Seq (Grp 2 (Plus dg)) (Plus sp)"

lemma responsePattern_shape:
  "responsePattern NewAnnotationParser =
     Seq Bol (Seq (Str ''!'') (Seq (Grp 1 (Alt (Str ''ok'') (Str ''error'')))
       (Seq (Plus sp) (Seq (Opt statusPart) (Seq (Grp 3 (Plus nsp)) (optQuoted 4))))))"
  by (simp add: NewAnnotationParser_def statusPart_def)

lemma firstMatch_keyword:
  assumes "kw = ''ok'' \<or> kw = ''error''"
  shows "firstMatch (run t (Grp 1 (Alt (Str ''ok'') (Str ''error''))) (kw @ u, c)) =
           Some (u, c[1 := kw])"
  using assms by auto

lemma response_first:
  assumes kw: "kw = ''ok'' \<or> kw = ''error''"
    and ws: "ws \<noteq> []" "list_all (accepts sp) ws"
    and u: "u \<noteq> []" "\<not> accepts sp (hd u)"
    and opt: "firstMatch (run t (Opt statusPart) (u, (replicate 5 [])[1 := kw])) = Some (tok @ rest, c2)"
    and tok: "tok \<noteq> []" "list_all (accepts nsp) tok"
    and rest: "rest = [] \<or> accepts sp (hd rest)"
  shows "\<exists>s' c. firstMatch (run t (Seq (Str ''!'') (Seq (Grp 1 (Alt (Str ''ok'') (Str ''error'')))
            (Seq (Plus sp) (Seq (Opt statusPart) (Seq (Grp 3 (Plus nsp)) (optQuoted 4))))))
            (''!'' @ kw @ ws @ u, replicate 5 [])) = Some (s', c) \<and>
          length c = 5 \<and> c ! 1 = kw \<and> c ! 2 = c2 ! 2 \<and> c ! 3 = tok \<and>
          (rest = [] \<longrightarrow> s' = [] \<and> c ! 4 = c2 ! 4)"
proof -
  let ?c1 = "(replicate 5 ([]::string))[1 := kw]"
  let ?c3 = "c2[3 := tok]"
  have len2: "length c2 = 5"
    using run_caps_length [OF firstMatch_mem [OF opt]] by simp
  have f1: "firstMatch (run t (Str ''!'') (''!'' @ kw @ ws @ u, replicate 5 [])) =
      Some (kw @ ws @ u, replicate 5 [])"
    by (rule firstMatch_Str)
  have f2: "firstMatch (run t (Grp 1 (Alt (Str ''ok'') (Str ''error''))) (kw @ ws @ u, replicate 5 [])) =
      Some (ws @ u, ?c1)"
    using kw by (rule firstMatch_keyword)
  have f3: "firstMatch (run t (Plus sp) (ws @ u, ?c1)) = Some (u, ?c1)"
    using ws u by (intro firstMatch_Plus) auto
  have r: "rest = [] \<or> \<not> accepts nsp (hd rest)" using rest by auto
  have "firstMatch (run t (Plus nsp) (tok @ rest, c2)) = Some (rest, c2)"
    using tok r by (intro firstMatch_Plus)
  from firstMatch_Grp [OF this, of 3]
  have f5: "firstMatch (run t (Grp 3 (Plus nsp)) (tok @ rest, c2)) = Some (rest, ?c3)"
    by simp
  obtain x where f6: "firstMatch (run t (optQuoted 4) (rest, ?c3)) = Some x"
    using firstMatch_Opt_ex by blast
  obtain s' c where x: "x = (s', c)" by (cases x)
  have mem: "(s', c) \<in> set (run t (optQuoted 4) (rest, ?c3))"
    using firstMatch_mem [OF f6] x by simp
  have lenc: "length c = 5" using run_caps_length [OF mem] len2 by simp
  have fr: "c ! i = ?c3 ! i" if "i \<noteq> 4" for i
    using run_frame [OF mem, of i] that by simp
  have c1: "c ! 1 = c2 ! 1" "c ! 2 = c2 ! 2" "c ! 3 = tok"
    using fr [of 1] fr [of 2] fr [of 3] len2 by simp_all
  have "c2 ! 1 = ?c1 ! 1"
    using run_frame [OF firstMatch_mem [OF opt], of 1] by (simp add: statusPart_def)
  then have c21: "c2 ! 1 = kw" by simp
  have e: "s' = [] \<and> c ! 4 = c2 ! 4" if "rest = []"
  proof -
    have "run t (optQuoted 4) ([], ?c3) = [([], ?c3)]" by simp
    with f6 [unfolded that] have "x = ([], ?c3)" by simp
    with x have "s' = []" and "c = c2[3 := tok]" by simp_all
    then show ?thesis by simp
  qed
  have "firstMatch (run t (Seq (Str ''!'') (Seq (Grp 1 (Alt (Str ''ok'') (Str ''error'')))
            (Seq (Plus sp) (Seq (Opt statusPart) (Seq (Grp 3 (Plus nsp)) (optQuoted 4))))))
            (''!'' @ kw @ ws @ u, replicate 5 [])) = Some (s', c)"
    by (intro firstMatch_Seq [OF f1] firstMatch_Seq [OF f2] firstMatch_Seq [OF f3]
        firstMatch_Seq [OF opt] firstMatch_Seq [OF f5]) (rule f6 [unfolded x])
  with lenc c1 c21 e show ?thesis by auto
qed

lemma run_Seq_all_Nil:
  "(\<And>y. y \<in> set (run t a st) \<Longrightarrow> run t b y = []) \<Longrightarrow> run t (Seq a b) st = []"
  by (simp only: run.simps(4) concat_eq_Nil_conv) auto

lemma statusPart_Nil:
  assumes "\<And>k. 1 \<le> k \<Longrightarrow> k \<le> length (takeWhile (accepts dg) u) \<Longrightarrow>
             drop k u = [] \<or> \<not> accepts sp (hd (drop k u))"
  shows "run t statusPart (u, c) = []"
proof -
  have "run t (Plus sp) y = []" if "y \<in> set (run t (Grp 2 (Plus dg)) (u, c))" for y
  proof -
    from that obtain k where "1 \<le> k" "k \<le> length (takeWhile (accepts dg) u)"
      and "fst y = drop k u" by auto
    with assms [of k] have "fst y = [] \<or> \<not> accepts sp (hd (fst y))" by simp
    then show ?thesis using run_Plus_Nil [of "fst y" sp t "snd y"] by simp
  qed
  then show ?thesis unfolding statusPart_def by (rule run_Seq_all_Nil)
qed

lemma statusPart_digits_only:
  assumes "list_all (accepts dg) ds"
  shows "run t statusPart (ds, c) = []"
proof (rule statusPart_Nil)
  fix k :: nat
  show "drop k ds = [] \<or> \<not> accepts sp (hd (drop k ds))"
  proof (cases "drop k ds")
    case Nil
    then show ?thesis by simp
  next
    case (Cons x xs)
    then have "x \<in> set ds" by (metis in_set_dropD list.set_intros(1))
    with assms have "accepts dg x" by (simp add: list_all_iff)
    with Cons digit_not_space show ?thesis by simp
  qed
qed

lemma statusPart_not_digits:
  assumes "list_all (accepts nsp) tok" and "\<not> list_all (accepts dg) tok"
  shows "run t statusPart (tok @ rest, c) = []"
proof (rule statusPart_Nil)
  fix k assume k: "k \<le> length (takeWhile (accepts dg) (tok @ rest))"
  from assms(2) obtain x where x: "x \<in> set tok" "\<not> accepts dg x" by (auto simp: list_all_iff)
  then have tw: "takeWhile (accepts dg) (tok @ rest) = takeWhile (accepts dg) tok"
    by (rule takeWhile_append1)
  have "length (takeWhile (accepts dg) tok) < length tok"
  proof (rule ccontr)
    assume "\<not> length (takeWhile (accepts dg) tok) < length tok"
    then have "length (takeWhile (accepts dg) tok) = length tok"
      using length_takeWhile_le [of "accepts dg" tok] by simp
    then have "takeWhile (accepts dg) tok = tok"
      by (metis append_eq_conv_conj takeWhile_dropWhile_id take_all_iff order_refl)
    with x show False by (metis set_takeWhileD)
  qed
  with k tw have lt: "k < length tok" by simp
  then have "hd (drop k (tok @ rest)) = tok ! k" by (simp add: hd_drop_conv_nth nth_append)
  moreover from lt assms(1) have "accepts nsp (tok ! k)" by (simp add: list_all_length)
  ultimately show "drop k (tok @ rest) = [] \<or> \<not> accepts sp (hd (drop k (tok @ rest)))"
    by simp
qed


lemma FindStringSubmatch_first:
  assumes "firstMatch (run s r (s, replicate (Suc (NumSubexp r)) [])) = Some (s', c)"
  shows "FindStringSubmatch (Seq Bol r) s = Some (c[0 := take (length s - length s') s])"
  using assms
  by (cases "run s r (s, replicate (Suc (NumSubexp r)) [])")
     (simp_all only: FindStringSubmatch_anchored firstMatch_simps list.case option.inject prod.case,
      simp)

section \<open>Which grammar a line reaches\<close>

text \<open>Two strings clash when neither is a prefix of the other.\<close>

definition clash :: "string \<Rightarrow> string \<Rightarrow> bool" where
  "clash a b = (take (min (length a) (length b)) a \<noteq> take (min (length a) (length b)) b)"

lemma prefixes_no_clash:
  assumes "HasPrefix line a" and "HasPrefix line b"
  shows "\<not> clash a b"
proof -
  let ?n = "min (length a) (length b)"
  from assms have "take ?n (take (length a) line) = take ?n a"
    and "take ?n (take (length b) line) = take ?n b"
    by (simp_all only: HasPrefix_def)
  then have "take ?n a = take ?n b" by (simp add: min_def split: if_splits)
  then show ?thesis by (simp add: clash_def)
qed

lemma no_match_clash:
  assumes "HasPrefix line k"
    and "\<And>m. FindStringSubmatch pat line = Some m \<Longrightarrow> HasPrefix line w"
    and "clash w k"
  shows "FindStringSubmatch pat line = None"
proof (cases "FindStringSubmatch pat line")
  case None
  then show ?thesis .
next
  case (Some m)
  from assms(2) [OF Some] assms(1) prefixes_no_clash assms(3) show ?thesis by blast
qed

lemma no_match_clash_alts:
  assumes "HasPrefix line k"
    and "\<And>m. FindStringSubmatch pat line = Some m \<Longrightarrow> \<exists>v \<in> set vs. HasPrefix line (''!'' @ v)"
    and "\<And>v. v \<in> set vs \<Longrightarrow> clash (''!'' @ v) k"
  shows "FindStringSubmatch pat line = None"
proof (cases "FindStringSubmatch pat line")
  case None
  then show ?thesis .
next
  case (Some m)
  from assms(2) [OF Some] obtain v where "v \<in> set vs" "HasPrefix line (''!'' @ v)" by blast
  with assms(1,3) prefixes_no_clash show ?thesis by blast
qed

lemma route_prefix:
  "FindStringSubmatch (routePattern NewAnnotationParser) line = Some m \<Longrightarrow>
     \<exists>v \<in> set [''GET'', ''POST'', ''PUT'', ''DELETE'', ''PATCH'', ''OPTIONS'', ''HEAD''].
        HasPrefix line (''!'' @ v)"
  using alt_pattern_shapes(1) match_alts_prefix by metis

lemma param_prefix:
  "FindStringSubmatch (paramPattern NewAnnotationParser) line = Some m \<Longrightarrow>
     \<exists>v \<in> set [''query'', ''path'', ''header'', ''cookie'']. HasPrefix line (''!'' @ v)"
  using alt_pattern_shapes(2) match_alts_prefix by metis

lemma response_prefix:
  "FindStringSubmatch (responsePattern NewAnnotationParser) line = Some m \<Longrightarrow>
     \<exists>v \<in> set [''ok'', ''error'']. HasPrefix line (''!'' @ v)"
  using alt_pattern_shapes(3) match_alts_prefix by metis

definition simpleKeywords :: "string list" where
  "simpleKeywords = [''!api'', ''!info'', ''!contact'', ''!license'', ''!server'', ''!tag'',
     ''!tos'', ''!security'', ''!scope'', ''!externalDocs'', ''!link'']"

lemma simple_none:
  assumes k: "HasPrefix line k" and c: "\<And>w. w \<in> set simpleKeywords \<Longrightarrow> clash w k"
  shows "tryMatchers (matchers NewAnnotationParser) line = None"
proof -
  have "FindStringSubmatch (apiPattern NewAnnotationParser) line = None"
    "FindStringSubmatch (infoPattern NewAnnotationParser) line = None"
    "FindStringSubmatch (contactPattern NewAnnotationParser) line = None"
    "FindStringSubmatch (licensePattern NewAnnotationParser) line = None"
    "FindStringSubmatch (serverPattern NewAnnotationParser) line = None"
    "FindStringSubmatch (tagPattern NewAnnotationParser) line = None"
    "FindStringSubmatch (tosPattern NewAnnotationParser) line = None"
    "FindStringSubmatch (securityPattern NewAnnotationParser) line = None"
    "FindStringSubmatch (scopePattern NewAnnotationParser) line = None"
    "FindStringSubmatch (externalDocsPattern NewAnnotationParser) line = None"
    "FindStringSubmatch (linkPattern NewAnnotationParser) line = None"
    by (rule no_match_clash [OF k], erule keyword_prefixes, rule c, simp add: simpleKeywords_def)+
  then show ?thesis by (simp add: matchers_def)
qed

lemma route_none:
  assumes "HasPrefix line k"
    and "\<And>v. v \<in> set [''GET'', ''POST'', ''PUT'', ''DELETE'', ''PATCH'', ''OPTIONS'', ''HEAD'']
           \<Longrightarrow> clash (''!'' @ v) k"
  shows "FindStringSubmatch (routePattern NewAnnotationParser) line = None"
  using assms(1) route_prefix assms(2) by (rule no_match_clash_alts)

lemma param_none:
  assumes "HasPrefix line k"
    and "\<And>v. v \<in> set [''query'', ''path'', ''header'', ''cookie''] \<Longrightarrow> clash (''!'' @ v) k"
  shows "FindStringSubmatch (paramPattern NewAnnotationParser) line = None"
  using assms(1) param_prefix assms(2) by (rule no_match_clash_alts)

lemma response_none:
  assumes "HasPrefix line k"
    and "\<And>v. v \<in> set [''ok'', ''error''] \<Longrightarrow> clash (''!'' @ v) k"
  shows "FindStringSubmatch (responsePattern NewAnnotationParser) line = None"
  using assms(1) response_prefix assms(2) by (rule no_match_clash_alts)

lemma clash_simple:
  "k \<in> set [''!GET'', ''!POST'', ''!PUT'', ''!DELETE'', ''!PATCH'', ''!OPTIONS'', ''!HEAD'',
      ''!query'', ''!path'', ''!header'', ''!cookie'', ''!body'', ''!ok'', ''!error'', ''!field'']
   \<Longrightarrow> w \<in> set simpleKeywords \<Longrightarrow> clash w k"
  by (auto simp: clash_def simpleKeywords_def)

lemma clash_route:
  "k \<in> set [''!query'', ''!path'', ''!header'', ''!cookie'', ''!body'', ''!ok'', ''!error'', ''!field'']
   \<Longrightarrow> v \<in> set [''GET'', ''POST'', ''PUT'', ''DELETE'', ''PATCH'', ''OPTIONS'', ''HEAD'']
   \<Longrightarrow> clash (''!'' @ v) k"
  by (auto simp: clash_def)

lemma clash_param:
  "k \<in> set [''!body'', ''!ok'', ''!error'', ''!field'']
   \<Longrightarrow> v \<in> set [''query'', ''path'', ''header'', ''cookie''] \<Longrightarrow> clash (''!'' @ v) k"
  by (auto simp: clash_def)

lemma clash_response:
  "v \<in> set [''ok'', ''error''] \<Longrightarrow> clash (''!'' @ v) ''!field''"
  by (auto simp: clash_def)

lemma clash_str:
  "clash ''!body'' ''!ok''" "clash ''!body'' ''!error''" "clash ''!body'' ''!field''"
  "clash ''!secure'' ''!field''" "clash ''!webhook'' ''!field''"
  "clash ''!webhook-body'' ''!field''" "clash ''!webhook-response'' ''!field''"
  "clash ''!model'' ''!field''"
  by (simp_all add: clash_def)

lemma parseBodyPattern_Some:
  assumes "FindStringSubmatch (bodyPattern NewAnnotationParser) line = Some m"
  shows "\<exists>args. parseBodyPattern NewAnnotationParser line =
           Inr (Some \<lparr>Type = AnnotationBody, RawLine = line, Args = args, Tags = []\<rparr>) \<and>
         args ''schema'' = Some (m ! 1) \<and> args ''description'' = Some (m ! 2) \<and>
         args ''required'' = (if Contains line '' required'' then Some argTrue else None)"
proof -
  from FindStringSubmatch_length [OF assms] have "length m = 3" by (simp add: NumSubexp_patterns)
  with assms show ?thesis by (simp add: parseBodyPattern_def Let_def)
qed

lemma parseFieldPattern_Some:
  assumes "FindStringSubmatch (fieldPattern NewAnnotationParser) line = Some m"
  shows "\<exists>args. parseFieldPattern NewAnnotationParser line =
           Inr (Some \<lparr>Type = AnnotationField, RawLine = line, Args = args, Tags = []\<rparr>) \<and>
         args ''name'' = Some (m ! 1) \<and> args ''type'' = Some (m ! 2) \<and>
         args ''description'' = Some (m ! 3) \<and>
         args ''required'' = (if Contains line '' required'' then Some argTrue else None) \<and>
         args ''example'' =
           (case FindStringSubmatch examplePattern line of
              None \<Rightarrow> None | Some e \<Rightarrow> Some (Trim (e ! 1) [DQ, CHR 0x27]))"
proof -
  from FindStringSubmatch_length [OF assms] have len: "length m = 4" by (simp add: NumSubexp_patterns)
  show ?thesis
  proof (cases "FindStringSubmatch examplePattern line")
    case None
    with assms len show ?thesis by (simp add: parseFieldPattern_def Let_def)
  next
    case (Some e)
    from FindStringSubmatch_length [OF Some] have "length e = 2" by (simp add: NumSubexp_patterns)
    with Some assms len show ?thesis by (simp add: parseFieldPattern_def Let_def)
  qed
qed

lemma parseRoutePattern_Some:
  assumes "FindStringSubmatch (routePattern NewAnnotationParser) line = Some m"
  shows "parseRoutePattern NewAnnotationParser line =
     Inr (Some \<lparr>Type = AnnotationRoute, RawLine = line,
                Args = [''method'' \<mapsto> ToUpper (m ! 1), ''path'' \<mapsto> m ! 2,
                        ''operationId'' \<mapsto> m ! 3, ''summary'' \<mapsto> m ! 4],
                Tags = map (\<lambda>m. m ! 1) (FindAllStringSubmatch hashtagPattern line)\<rparr>)"
proof -
  from FindStringSubmatch_length [OF assms] have "length m = 5" by (simp add: NumSubexp_patterns)
  with assms show ?thesis by (simp add: parseRoutePattern_def extractTags_Inr)
qed




lemma tryMatchers_match:
  "(pattern, aType, keys) \<in> set ms \<Longrightarrow> FindStringSubmatch pattern line = Some m \<Longrightarrow>
     \<exists>a. tryMatchers ms line = Some a"
  by (induction ms) (auto split: option.splits)

lemma has_prefix_in:
  "v \<in> set vs \<Longrightarrow> HasPrefix line (''!'' @ v) \<Longrightarrow> \<exists>k \<in> set (map ((@) ''!'') vs). HasPrefix line k"
  by auto

lemma param_line_dispatch:
  assumes "FindStringSubmatch (paramPattern NewAnnotationParser) line = Some m"
  shows "parseLine NewAnnotationParser line = parseParamPattern NewAnnotationParser line"
proof -
  from param_prefix [OF assms] obtain k where
    k: "k \<in> set [''!query'', ''!path'', ''!header'', ''!cookie'']" "HasPrefix line k" by auto
  from k have ks: "k \<in> set [''!GET'', ''!POST'', ''!PUT'', ''!DELETE'', ''!PATCH'', ''!OPTIONS'', ''!HEAD'',
      ''!query'', ''!path'', ''!header'', ''!cookie'', ''!body'', ''!ok'', ''!error'', ''!field'']"
    and kr: "k \<in> set [''!query'', ''!path'', ''!header'', ''!cookie'', ''!body'', ''!ok'', ''!error'', ''!field'']"
    by auto
  have s: "parseSimplePatterns NewAnnotationParser line = Inr None"
    using simple_none [OF k(2) clash_simple [OF ks]] by (simp add: parseSimplePatterns_def)
  have r: "parseRoutePattern NewAnnotationParser line = Inr None"
    using route_none [OF k(2) clash_route [OF kr]] by (simp add: parseRoutePattern_def)
  from parseParamPattern_Some [OF assms] obtain a where
    p: "parseParamPattern NewAnnotationParser line = Inr (Some a)" by blast
  show ?thesis by (simp only: parseLine_def orElse_def s r p sum.case option.case)
qed

lemma body_line_dispatch:
  assumes "FindStringSubmatch (bodyPattern NewAnnotationParser) line = Some m"
  shows "parseLine NewAnnotationParser line = parseBodyPattern NewAnnotationParser line"
proof -
  from keyword_prefixes(15) [OF assms] have k: "HasPrefix line ''!body''" .
  have s: "parseSimplePatterns NewAnnotationParser line = Inr None"
    using simple_none [OF k clash_simple] by (simp add: parseSimplePatterns_def)
  have r: "parseRoutePattern NewAnnotationParser line = Inr None"
    using route_none [OF k clash_route] by (simp add: parseRoutePattern_def)
  have q: "parseParamPattern NewAnnotationParser line = Inr None"
    using param_none [OF k clash_param] by (simp add: parseParamPattern_def)
  from parseBodyPattern_Some [OF assms] obtain a where
    p: "parseBodyPattern NewAnnotationParser line = Inr (Some a)" by blast
  show ?thesis by (simp only: parseLine_def orElse_def s r q p sum.case option.case)
qed

lemma parseResponsePattern_Some:
  assumes "FindStringSubmatch (responsePattern NewAnnotationParser) line = Some m"
  shows "parseResponsePattern NewAnnotationParser line =
     Inr (Some \<lparr>Type = (if m ! 1 = ''error'' then AnnotationError else AnnotationOK),
                RawLine = line,
                Args = [''status'' \<mapsto> (if m ! 1 = ''ok'' \<and> m ! 2 = [] then ''200''
                                      else if m ! 1 = ''error'' \<and> m ! 2 = [] then ''500''
                                      else m ! 2),
                        ''schema'' \<mapsto> m ! 3, ''description'' \<mapsto> m ! 4],
                Tags = []\<rparr>)"
proof -
  from FindStringSubmatch_length [OF assms] have "length m = 5" by (simp add: NumSubexp_patterns)
  with assms show ?thesis by (simp add: parseResponsePattern_def Let_def)
qed

lemma response_line_dispatch:
  assumes "FindStringSubmatch (responsePattern NewAnnotationParser) line = Some m"
  shows "parseLine NewAnnotationParser line = parseResponsePattern NewAnnotationParser line"
proof -
  from response_prefix [OF assms] obtain k where
    k: "k \<in> set [''!ok'', ''!error'']" "HasPrefix line k" by auto
  from k have ks: "k \<in> set [''!GET'', ''!POST'', ''!PUT'', ''!DELETE'', ''!PATCH'', ''!OPTIONS'', ''!HEAD'',
      ''!query'', ''!path'', ''!header'', ''!cookie'', ''!body'', ''!ok'', ''!error'', ''!field'']"
    and kr: "k \<in> set [''!query'', ''!path'', ''!header'', ''!cookie'', ''!body'', ''!ok'', ''!error'', ''!field'']"
    and kp: "k \<in> set [''!body'', ''!ok'', ''!error'', ''!field'']"
    by auto
  have s: "parseSimplePatterns NewAnnotationParser line = Inr None"
    using simple_none [OF k(2) clash_simple [OF ks]] by (simp add: parseSimplePatterns_def)
  have r: "parseRoutePattern NewAnnotationParser line = Inr None"
    using route_none [OF k(2) clash_route [OF kr]] by (simp add: parseRoutePattern_def)
  have q: "parseParamPattern NewAnnotationParser line = Inr None"
    using param_none [OF k(2) clash_param [OF kp]] by (simp add: parseParamPattern_def)
  have "clash ''!body'' k" using k(1) clash_str(1,2) by auto
  then have "FindStringSubmatch (bodyPattern NewAnnotationParser) line = None"
    by (intro no_match_clash [OF k(2), where w = "''!body''"]) (erule keyword_prefixes(15))
  then have b: "parseBodyPattern NewAnnotationParser line = Inr None"
    by (simp add: parseBodyPattern_def)
  have "\<exists>a. parseResponsePattern NewAnnotationParser line = Inr (Some a)"
    by (simp only: parseResponsePattern_Some [OF assms]) blast
  then obtain a where p: "parseResponsePattern NewAnnotationParser line = Inr (Some a)" ..
  show ?thesis by (simp only: parseLine_def orElse_def s r q b p sum.case option.case)
qed

lemma route_line_dispatch:
  assumes "FindStringSubmatch (routePattern NewAnnotationParser) line = Some m"
  shows "parseLine NewAnnotationParser line = parseRoutePattern NewAnnotationParser line"
proof -
  from route_prefix [OF assms] obtain k where
    k: "k \<in> set [''!GET'', ''!POST'', ''!PUT'', ''!DELETE'', ''!PATCH'', ''!OPTIONS'', ''!HEAD'']"
      "HasPrefix line k" by auto
  from k have ks: "k \<in> set [''!GET'', ''!POST'', ''!PUT'', ''!DELETE'', ''!PATCH'', ''!OPTIONS'', ''!HEAD'',
      ''!query'', ''!path'', ''!header'', ''!cookie'', ''!body'', ''!ok'', ''!error'', ''!field'']"
    by auto
  have s: "parseSimplePatterns NewAnnotationParser line = Inr None"
    using simple_none [OF k(2) clash_simple [OF ks]] by (simp add: parseSimplePatterns_def)
  have "\<exists>a. parseRoutePattern NewAnnotationParser line = Inr (Some a)"
    by (simp only: parseRoutePattern_Some [OF assms]) blast
  then obtain a where p: "parseRoutePattern NewAnnotationParser line = Inr (Some a)" ..
  show ?thesis by (simp only: parseLine_def orElse_def s p sum.case option.case)
qed

lemma field_line_dispatch:
  assumes "FindStringSubmatch (fieldPattern NewAnnotationParser) line = Some m"
  shows "parseLine NewAnnotationParser line = parseFieldPattern NewAnnotationParser line"
proof -
  from keyword_prefixes(18) [OF assms] have k: "HasPrefix line ''!field''" .
  have s: "parseSimplePatterns NewAnnotationParser line = Inr None"
    using simple_none [OF k clash_simple] by (simp add: parseSimplePatterns_def)
  have r: "parseRoutePattern NewAnnotationParser line = Inr None"
    using route_none [OF k clash_route] by (simp add: parseRoutePattern_def)
  have q: "parseParamPattern NewAnnotationParser line = Inr None"
    using param_none [OF k clash_param] by (simp add: parseParamPattern_def)
  have "FindStringSubmatch (bodyPattern NewAnnotationParser) line = None"
    by (rule no_match_clash [OF k, where w = "''!body''"]) (erule keyword_prefixes(15), rule clash_str)
  then have b: "parseBodyPattern NewAnnotationParser line = Inr None"
    by (simp add: parseBodyPattern_def)
  have o: "parseResponsePattern NewAnnotationParser line = Inr None"
    using response_none [OF k clash_response] by (simp add: parseResponsePattern_def)
  have "FindStringSubmatch (securePattern NewAnnotationParser) line = None"
    by (rule no_match_clash [OF k, where w = "''!secure''"]) (erule keyword_prefixes(16), rule clash_str)
  then have c: "parseSecurePattern NewAnnotationParser line = Inr None"
    by (simp add: parseSecurePattern_def)
  have "FindStringSubmatch (webhookPattern NewAnnotationParser) line = None"
    by (rule no_match_clash [OF k, where w = "''!webhook''"]) (erule keyword_prefixes(12), rule clash_str)
  moreover have "FindStringSubmatch (webhookBodyPattern NewAnnotationParser) line = None"
    by (rule no_match_clash [OF k, where w = "''!webhook-body''"]) (erule keyword_prefixes(13), rule clash_str)
  moreover have "FindStringSubmatch (webhookRespPattern NewAnnotationParser) line = None"
    by (rule no_match_clash [OF k, where w = "''!webhook-response''"]) (erule keyword_prefixes(14), rule clash_str)
  ultimately have w: "parseWebhookPattern NewAnnotationParser line = Inr None"
    by (simp add: parseWebhookPattern_def)
  have "FindStringSubmatch (modelPattern NewAnnotationParser) line = None"
    by (rule no_match_clash [OF k, where w = "''!model''"]) (erule keyword_prefixes(17), rule clash_str)
  then have d: "parseModelPattern NewAnnotationParser line = Inr None"
    by (simp add: parseModelPattern_def)
  show ?thesis by (simp only: parseLine_def orElse_def s r q b o c w d sum.case option.case)
qed

lemma param_line_required:
  assumes "FindStringSubmatch (paramPattern NewAnnotationParser) line = Some m"
  shows "\<exists>a. parseLine NewAnnotationParser line = Inr (Some a) \<and>
           Type a \<in> {AnnotationQuery, AnnotationPath, AnnotationHeader} \<and>
           (Required (GetParam a) \<longleftrightarrow> Contains line '' required'')"
proof -
  from parseParamPattern_Some [OF assms] obtain a where
    p: "parseParamPattern NewAnnotationParser line = Inr (Some a)" by blast
  from parseParamPattern_required [OF p] have
    "Type a \<in> {AnnotationQuery, AnnotationPath, AnnotationHeader}"
    "Required (GetParam a) \<longleftrightarrow> Contains line '' required''"
    by (auto simp: GetParam_def lookup_def)
  with p param_line_dispatch [OF assms] show ?thesis by auto
qed

lemma body_line_required:
  assumes "FindStringSubmatch (bodyPattern NewAnnotationParser) line = Some m"
  shows "\<exists>a. parseLine NewAnnotationParser line = Inr (Some a) \<and> Type a = AnnotationBody \<and>
           (BodyRequired (GetBody a) \<longleftrightarrow> Contains line '' required'')"
proof -
  from parseBodyPattern_Some [OF assms] obtain a where
    p: "parseBodyPattern NewAnnotationParser line = Inr (Some a)" by blast
  from parseBodyPattern_required [OF p] have
    "Type a = AnnotationBody" "BodyRequired (GetBody a) \<longleftrightarrow> Contains line '' required''"
    by (auto simp: GetBody_def lookup_def)
  with p body_line_dispatch [OF assms] show ?thesis by auto
qed

lemma field_line_required:
  assumes "FindStringSubmatch (fieldPattern NewAnnotationParser) line = Some m"
  shows "\<exists>a. parseLine NewAnnotationParser line = Inr (Some a) \<and> Type a = AnnotationField \<and>
           (FieldRequired (GetField a) \<longleftrightarrow> Contains line '' required'')"
proof -
  from parseFieldPattern_Some [OF assms] obtain a where
    p: "parseFieldPattern NewAnnotationParser line = Inr (Some a)" by blast
  from parseFieldPattern_required [OF p] have
    "Type a = AnnotationField" "FieldRequired (GetField a) \<longleftrightarrow> Contains line '' required''"
    by (auto simp: GetField_def lookup_def)
  with p field_line_dispatch [OF assms] show ?thesis by auto
qed

section \<open>The required flag of a matching line\<close>

definition pathLineRequired :: string where
  \<open>pathLineRequired = ''!path id:integer "The user ID" required''\<close>

definition queryLineOptional :: string where
  \<open>queryLineOptional = ''!query limit:integer "Max items" default=10''\<close>

definition bodyLineRequired :: string where
  \<open>bodyLineRequired = ''!body CreateUserRequest "User data" required''\<close>

definition bodyLineOptional :: string where
  \<open>bodyLineOptional = ''!body CreateUserRequest "User data"''\<close>

definition fieldLineRequired :: string where
  \<open>fieldLineRequired = ''!field email:string "Email address" required''\<close>

definition fieldLineOptional :: string where
  \<open>fieldLineOptional = ''!field nickname:string "Shown name"''\<close>

text \<open>The substring inside the quoted description counts as well.\<close>

definition fieldLineQuoted :: string where
  \<open>fieldLineQuoted = ''!field note:string "not required"''\<close>

lemma example_lines_match:
  "FindStringSubmatch (paramPattern NewAnnotationParser) pathLineRequired \<noteq> None"
  "FindStringSubmatch (paramPattern NewAnnotationParser) queryLineOptional \<noteq> None"
  "FindStringSubmatch (bodyPattern NewAnnotationParser) bodyLineRequired \<noteq> None"
  "FindStringSubmatch (bodyPattern NewAnnotationParser) bodyLineOptional \<noteq> None"
  "FindStringSubmatch (fieldPattern NewAnnotationParser) fieldLineRequired \<noteq> None"
  "FindStringSubmatch (fieldPattern NewAnnotationParser) fieldLineOptional \<noteq> None"
  "FindStringSubmatch (fieldPattern NewAnnotationParser) fieldLineQuoted \<noteq> None"
  by code_simp+

lemma example_lines_contain:
  "Contains pathLineRequired '' required''"
  "\<not> Contains queryLineOptional '' required''"
  "Contains bodyLineRequired '' required''"
  "\<not> Contains bodyLineOptional '' required''"
  "Contains fieldLineRequired '' required''"
  "\<not> Contains fieldLineOptional '' required''"
  "Contains fieldLineQuoted '' required''"
  by code_simp+

text \<open>
  Claim C3. Every line that the parameter grammar matches (\<open>!query\<close>, \<open>!path\<close>,
  \<open>!header\<close>, and \<open>!cookie\<close>) yields an annotation of a parameter type, and the
  \<open>Required\<close> field that \<open>GetParam\<close> reads from it is true if and only if the line
  contains the substring \<open>" required"\<close>. In the same way every line that the body grammar
  matches yields a body annotation, and every line that the field grammar matches yields
  a field annotation, whose required flag is true if and only if the line contains that
  substring. Conversely, whatever annotation \<open>parseLine\<close> returns for a line, if it is of
  one of these types its required flag is true if and only if the line contains the
  substring.
\<close>

theorem directive_required_iff_substring:
  "(\<forall>m. FindStringSubmatch (paramPattern NewAnnotationParser) line = Some m \<longrightarrow>
      (\<exists>a. parseLine NewAnnotationParser line = Inr (Some a) \<and>
           Type a \<in> {AnnotationQuery, AnnotationPath, AnnotationHeader} \<and>
           (Required (GetParam a) \<longleftrightarrow> Contains line '' required''))) \<and>
   (\<forall>m. FindStringSubmatch (bodyPattern NewAnnotationParser) line = Some m \<longrightarrow>
      (\<exists>a. parseLine NewAnnotationParser line = Inr (Some a) \<and> Type a = AnnotationBody \<and>
           (BodyRequired (GetBody a) \<longleftrightarrow> Contains line '' required''))) \<and>
   (\<forall>m. FindStringSubmatch (fieldPattern NewAnnotationParser) line = Some m \<longrightarrow>
      (\<exists>a. parseLine NewAnnotationParser line = Inr (Some a) \<and> Type a = AnnotationField \<and>
           (FieldRequired (GetField a) \<longleftrightarrow> Contains line '' required''))) \<and>
   (\<forall>a. parseLine NewAnnotationParser line = Inr (Some a) \<longrightarrow>
      (Type a \<in> {AnnotationQuery, AnnotationPath, AnnotationHeader} \<longrightarrow>
            (Required (GetParam a) \<longleftrightarrow> Contains line '' required'')) \<and>
      (Type a = AnnotationBody \<longrightarrow>
            (BodyRequired (GetBody a) \<longleftrightarrow> Contains line '' required'')) \<and>
      (Type a = AnnotationField \<longrightarrow>
            (FieldRequired (GetField a) \<longleftrightarrow> Contains line '' required'')))"
  using param_line_required body_line_required field_line_required required_of_parsed
  by blast

theorem directive_required_iff_substring_witness:
  "(\<exists>a. parseLine NewAnnotationParser pathLineRequired = Inr (Some a) \<and>
        Type a \<in> {AnnotationQuery, AnnotationPath, AnnotationHeader} \<and> Required (GetParam a)) \<and>
   (\<exists>a. parseLine NewAnnotationParser queryLineOptional = Inr (Some a) \<and>
        Type a \<in> {AnnotationQuery, AnnotationPath, AnnotationHeader} \<and> \<not> Required (GetParam a)) \<and>
   (\<exists>a. parseLine NewAnnotationParser bodyLineRequired = Inr (Some a) \<and>
        Type a = AnnotationBody \<and> BodyRequired (GetBody a)) \<and>
   (\<exists>a. parseLine NewAnnotationParser bodyLineOptional = Inr (Some a) \<and>
        Type a = AnnotationBody \<and> \<not> BodyRequired (GetBody a)) \<and>
   (\<exists>a. parseLine NewAnnotationParser fieldLineRequired = Inr (Some a) \<and>
        Type a = AnnotationField \<and> FieldRequired (GetField a)) \<and>
   (\<exists>a. parseLine NewAnnotationParser fieldLineOptional = Inr (Some a) \<and>
        Type a = AnnotationField \<and> \<not> FieldRequired (GetField a)) \<and>
   (\<exists>a. parseLine NewAnnotationParser fieldLineQuoted = Inr (Some a) \<and>
        Type a = AnnotationField \<and> FieldRequired (GetField a))"
proof -
  have p: "\<exists>a. parseLine NewAnnotationParser line = Inr (Some a) \<and>
             Type a \<in> {AnnotationQuery, AnnotationPath, AnnotationHeader} \<and>
             (Required (GetParam a) \<longleftrightarrow> Contains line '' required'')"
    if "FindStringSubmatch (paramPattern NewAnnotationParser) line \<noteq> None" for line
    using directive_required_iff_substring [of line] that by blast
  have b: "\<exists>a. parseLine NewAnnotationParser line = Inr (Some a) \<and> Type a = AnnotationBody \<and>
             (BodyRequired (GetBody a) \<longleftrightarrow> Contains line '' required'')"
    if "FindStringSubmatch (bodyPattern NewAnnotationParser) line \<noteq> None" for line
    using directive_required_iff_substring [of line] that by blast
  have f: "\<exists>a. parseLine NewAnnotationParser line = Inr (Some a) \<and> Type a = AnnotationField \<and>
             (FieldRequired (GetField a) \<longleftrightarrow> Contains line '' required'')"
    if "FindStringSubmatch (fieldPattern NewAnnotationParser) line \<noteq> None" for line
    using directive_required_iff_substring [of line] that by blast
  from p [OF example_lines_match(1)] example_lines_contain(1) have 1:
    "\<exists>a. parseLine NewAnnotationParser pathLineRequired = Inr (Some a) \<and>
        Type a \<in> {AnnotationQuery, AnnotationPath, AnnotationHeader} \<and> Required (GetParam a)"
    by blast
  from p [OF example_lines_match(2)] example_lines_contain(2) have 2:
    "\<exists>a. parseLine NewAnnotationParser queryLineOptional = Inr (Some a) \<and>
        Type a \<in> {AnnotationQuery, AnnotationPath, AnnotationHeader} \<and> \<not> Required (GetParam a)"
    by blast
  from b [OF example_lines_match(3)] example_lines_contain(3) have 3:
    "\<exists>a. parseLine NewAnnotationParser bodyLineRequired = Inr (Some a) \<and>
        Type a = AnnotationBody \<and> BodyRequired (GetBody a)"
    by blast
  from b [OF example_lines_match(4)] example_lines_contain(4) have 4:
    "\<exists>a. parseLine NewAnnotationParser bodyLineOptional = Inr (Some a) \<and>
        Type a = AnnotationBody \<and> \<not> BodyRequired (GetBody a)"
    by blast
  from f [OF example_lines_match(5)] example_lines_contain(5) have 5:
    "\<exists>a. parseLine NewAnnotationParser fieldLineRequired = Inr (Some a) \<and>
        Type a = AnnotationField \<and> FieldRequired (GetField a)"
    by blast
  from f [OF example_lines_match(6)] example_lines_contain(6) have 6:
    "\<exists>a. parseLine NewAnnotationParser fieldLineOptional = Inr (Some a) \<and>
        Type a = AnnotationField \<and> \<not> FieldRequired (GetField a)"
    by blast
  from f [OF example_lines_match(7)] example_lines_contain(7) have 7:
    "\<exists>a. parseLine NewAnnotationParser fieldLineQuoted = Inr (Some a) \<and>
        Type a = AnnotationField \<and> FieldRequired (GetField a)"
    by blast
  from 1 2 3 4 5 6 7 show ?thesis by (intro conjI)
qed

section \<open>The lines that yield an annotation\<close>























section \<open>Parse never fails; which lines it keeps\<close>









section \<open>The status of a response line\<close>

text \<open>The response pattern after its \<open>^\<close>.\<close>

definition responseBody :: regex where
  "responseBody = Seq (Str ''!'') (Seq (Grp 1 (Alt (Str ''ok'') (Str ''error'')))
     (Seq (Plus sp) (Seq (Opt statusPart) (Seq (Grp 3 (Plus nsp)) (optQuoted 4)))))"

lemma responsePattern_body: "responsePattern NewAnnotationParser = Seq Bol responseBody"
  by (simp only: responsePattern_shape responseBody_def)

lemma NumSubexp_responseBody: "Suc (NumSubexp responseBody) = 5"
  by (simp add: responseBody_def statusPart_def)

lemma response_match:
  assumes kw: "kw = ''ok'' \<or> kw = ''error''"
    and ws: "ws \<noteq> []" "list_all (accepts sp) ws"
    and u: "u \<noteq> []" "\<not> accepts sp (hd u)"
    and opt: "firstMatch (run (''!'' @ kw @ ws @ u) (Opt statusPart) (u, (replicate 5 [])[1 := kw])) =
                Some (tok @ rest, c2)"
    and tok: "tok \<noteq> []" "list_all (accepts nsp) tok"
    and rest: "rest = [] \<or> accepts sp (hd rest)"
  shows "\<exists>m. FindStringSubmatch (responsePattern NewAnnotationParser) (''!'' @ kw @ ws @ u) = Some m \<and>
           length m = 5 \<and> m ! 1 = kw \<and> m ! 2 = c2 ! 2 \<and> m ! 3 = tok \<and>
           (rest = [] \<longrightarrow> m ! 0 = ''!'' @ kw @ ws @ u \<and> m ! 4 = c2 ! 4)"
proof -
  let ?line = "''!'' @ kw @ ws @ u"
  from response_first [OF kw ws u opt tok rest] obtain s' c where
    f: "firstMatch (run ?line responseBody (?line, replicate 5 [])) = Some (s', c)"
    and c: "length c = 5" "c ! 1 = kw" "c ! 2 = c2 ! 2" "c ! 3 = tok"
    and e: "rest = [] \<longrightarrow> s' = [] \<and> c ! 4 = c2 ! 4"
    unfolding responseBody_def by blast
  from f have "firstMatch (run ?line responseBody (?line, replicate (Suc (NumSubexp responseBody)) [])) =
      Some (s', c)"
    by (simp only: NumSubexp_responseBody)
  from FindStringSubmatch_first [OF this]
  have m: "FindStringSubmatch (responsePattern NewAnnotationParser) ?line =
      Some (c[0 := take (length ?line - length s') ?line])"
    by (simp only: responsePattern_body)
  let ?m = "c[0 := take (length ?line - length s') ?line]"
  have "length ?m = 5" "?m ! 1 = kw" "?m ! 2 = c2 ! 2" "?m ! 3 = tok"
    using c by simp_all
  moreover have "rest = [] \<longrightarrow> ?m ! 0 = ?line \<and> ?m ! 4 = c2 ! 4"
    using c e by simp
  ultimately show ?thesis using m by blast
qed

lemma token_start:
  "tok \<noteq> [] \<Longrightarrow> list_all (accepts nsp) tok \<Longrightarrow> tok @ rest \<noteq> [] \<and> \<not> accepts sp (hd (tok @ rest))"
  by (cases tok) auto

lemma response_match_default:
  assumes kw: "kw = ''ok'' \<or> kw = ''error''"
    and ws: "ws \<noteq> []" "list_all (accepts sp) ws"
    and tok: "tok \<noteq> []" "list_all (accepts nsp) tok"
    and rest: "rest = [] \<or> accepts sp (hd rest)"
    and nd: "\<not> list_all (accepts dg) tok \<or> rest = []"
  shows "\<exists>m. FindStringSubmatch (responsePattern NewAnnotationParser) (''!'' @ kw @ ws @ tok @ rest) = Some m \<and>
           length m = 5 \<and> m ! 1 = kw \<and> m ! 2 = [] \<and> m ! 3 = tok \<and>
           (rest = [] \<longrightarrow> m ! 0 = ''!'' @ kw @ ws @ tok @ rest \<and> m ! 4 = [])"
proof -
  let ?t = "''!'' @ kw @ ws @ tok @ rest"
  let ?c1 = "(replicate 5 ([]::string))[1 := kw]"
  have "run ?t statusPart (tok @ rest, ?c1) = []"
  proof (cases "list_all (accepts dg) tok")
    case True
    with nd have "rest = []" by simp
    with True statusPart_digits_only show ?thesis by simp
  next
    case False
    with tok(2) show ?thesis by (rule statusPart_not_digits)
  qed
  then have opt: "firstMatch (run ?t (Opt statusPart) (tok @ rest, ?c1)) = Some (tok @ rest, ?c1)"
    by (rule firstMatch_Opt_skip)
  from token_start [OF tok] have u: "tok @ rest \<noteq> []" "\<not> accepts sp (hd (tok @ rest))"
    by simp_all
  from response_match [OF kw ws u opt tok rest] show ?thesis by simp
qed


lemma response_annotation:
  assumes "FindStringSubmatch (responsePattern NewAnnotationParser) line = Some m"
  shows "parseLine NewAnnotationParser line =
     Inr (Some \<lparr>Type = (if m ! 1 = ''error'' then AnnotationError else AnnotationOK),
                RawLine = line,
                Args = [''status'' \<mapsto> (if m ! 1 = ''ok'' \<and> m ! 2 = [] then ''200''
                                      else if m ! 1 = ''error'' \<and> m ! 2 = [] then ''500''
                                      else m ! 2),
                        ''schema'' \<mapsto> m ! 3, ''description'' \<mapsto> m ! 4],
                Tags = []\<rparr>)"
  by (simp only: response_line_dispatch [OF assms] parseResponsePattern_Some [OF assms])

lemma keyword_cases:
  "kw = ''ok'' \<or> kw = ''error'' \<Longrightarrow>
     (if kw = ''ok'' \<and> ([]::string) = [] then ''200''
      else if kw = ''error'' \<and> ([]::string) = [] then ''500'' else []) =
     (if kw = ''error'' then ''500'' else ''200'')"
  by auto

text \<open>
  Claim C9. A response line made of the keyword \<open>!ok\<close> or \<open>!error\<close>, white space, and
  one token of digits only, yields an annotation whose \<open>schema\<close> is the digit string and
  whose \<open>status\<close> is the default of the keyword, \<open>200\<close> for \<open>!ok\<close> and \<open>500\<close> for
  \<open>!error\<close>; its description is empty and it has no tags.
\<close>

theorem digits_only_response_is_schema:
  assumes "kw = ''ok'' \<or> kw = ''error''"
    and "ws \<noteq> []" and "list_all (accepts sp) ws"
    and "ds \<noteq> []" and "list_all (accepts dg) ds"
  shows "parseLine NewAnnotationParser (''!'' @ kw @ ws @ ds) =
     Inr (Some \<lparr>Type = (if kw = ''error'' then AnnotationError else AnnotationOK),
                RawLine = ''!'' @ kw @ ws @ ds,
                Args = [''status'' \<mapsto> (if kw = ''error'' then ''500'' else ''200''),
                        ''schema'' \<mapsto> ds, ''description'' \<mapsto> []],
                Tags = []\<rparr>)"
proof -
  from assms(5) have n: "list_all (accepts nsp) ds" using digit_nsp by (simp add: list_all_iff)
  have r: "([]::string) = [] \<or> accepts sp (hd [])" by simp
  have d: "\<not> list_all (accepts dg) ds \<or> ([]::string) = []" by simp
  from response_match_default [OF assms(1,2,3,4) n r d] obtain m where
    m: "FindStringSubmatch (responsePattern NewAnnotationParser) (''!'' @ kw @ ws @ ds @ []) = Some m"
    and g: "m ! 1 = kw" "m ! 2 = []" "m ! 3 = ds" "m ! 4 = []" by blast
  from m have m': "FindStringSubmatch (responsePattern NewAnnotationParser) (''!'' @ kw @ ws @ ds) = Some m"
    by (simp only: append_Nil2)
  show ?thesis
    by (simp only: response_annotation [OF m'] g keyword_cases [OF assms(1)])
qed

theorem digits_only_response_is_schema_witness:
  "parseLine NewAnnotationParser ''!error 404'' =
     Inr (Some \<lparr>Type = AnnotationError, RawLine = ''!error 404'',
                Args = [''status'' \<mapsto> ''500'', ''schema'' \<mapsto> ''404'', ''description'' \<mapsto> []],
                Tags = []\<rparr>) \<and>
   parseLine NewAnnotationParser ''!ok 201'' =
     Inr (Some \<lparr>Type = AnnotationOK, RawLine = ''!ok 201'',
                Args = [''status'' \<mapsto> ''200'', ''schema'' \<mapsto> ''201'', ''description'' \<mapsto> []],
                Tags = []\<rparr>)"
  using digits_only_response_is_schema [of "''error''" "'' ''" "''404''"]
    digits_only_response_is_schema [of "''ok''" "'' ''" "''201''"]
  by (simp add: Let_def)







end
